theory Spec2Isabelle
  imports Main "HOL-Library.Word"
begin

section \<open>Items and the watermark state (lib/cache.js)\<close>

text \<open>
  Strings are lists of code units; every code unit is taken to be below 256, so that a
  \<^typ>\<open>char\<close> is one code unit. A normalized item carries the fields the fetchers
  give it; scoring adds further fields, which the record extension stands for.
\<close>

record item =
  id_of :: string
  title :: string
  url :: string
  description :: string
  publishedAt :: int
  source :: string
  version :: "string option"
  prerelease :: bool

record latestItem =
  latestId :: string
  latestTitle :: string
  latestPublishedAt :: int

text \<open>
  One entry of \<open>state.sources\<close>. The state is read back from a JSON file, so the
  \<open>seenIds\<close> field may be absent: \<open>None\<close> is the absent (falsy) field, \<open>Some ids\<close>
  an array of ids.
\<close>

record sourceState =
  lastUpdated :: string
  itemCount :: nat
  seenIds :: "string list option"
  latest :: "latestItem option"

text \<open>
  \<open>sources\<close> is a JavaScript object used as a dictionary from source id to entry: an
  association list of its own properties, in the order of their creation.
\<close>

record watermarkState =
  lastRun :: "string option"
  initialized :: bool
  sources :: "(string \<times> sourceState) list"

record 'a diffResult =
  newItems :: "'a list"
  isFirstRun :: bool

subsection \<open>Enumeration of own properties\<close>

text \<open>
  \<open>Object.entries\<close> and \<open>Object.values\<close> list the properties whose name is an array
  index first, in ascending numeric order, and the other names after them in the order of
  their creation. An array index is the decimal numeral, without leading zeros, of a
  number below \<open>2^32 - 1\<close>.
\<close>

definition isDigit :: "char \<Rightarrow> bool" where
  "isDigit c = (let n = (of_char c :: nat) in 48 \<le> n \<and> n \<le> 57)"

definition indexValue :: "string \<Rightarrow> nat" where
  "indexValue k = foldl (\<lambda>n c. 10 * n + (of_char c - 48)) 0 k"

definition isArrayIndex :: "string \<Rightarrow> bool" where
  "isArrayIndex k =
     (k \<noteq> [] \<and> list_all isDigit k \<and> (k = ''0'' \<or> hd k \<noteq> CHR ''0'') \<and>
      indexValue k < 2 ^ 32 - 1)"

definition ownEntries :: "(string \<times> 'v) list \<Rightarrow> (string \<times> 'v) list" where
  "ownEntries kvs =
     sort_key (\<lambda>e. indexValue (fst e)) (filter (\<lambda>e. isArrayIndex (fst e)) kvs) @
     filter (\<lambda>e. \<not> isArrayIndex (fst e)) kvs"

subsection \<open>getNewItems\<close>

text \<open>
  The loop over \<open>Object.values(previousState.sources)\<close>: each entry with a
  \<open>seenIds\<close> field adds its ids to the set; an entry without one adds nothing. (The
  loop only fills a set, so the order in which the entries are visited plays no part and
  is left as the order of the list.)
\<close>

fun collectSeen :: "string set \<Rightarrow> sourceState list \<Rightarrow> string set" where
  "collectSeen seen [] = seen"
| "collectSeen seen (st # sts) =
     (case seenIds st of
        None \<Rightarrow> collectSeen seen sts
      | Some ids \<Rightarrow> collectSeen (seen \<union> set ids) sts)"

text \<open>The loop over the scored items: an item whose id is not in the set is pushed.\<close>

fun pushUnseen :: "string set \<Rightarrow> ('a item_scheme) list \<Rightarrow> ('a item_scheme) list \<Rightarrow> ('a item_scheme) list" where
  "pushUnseen seen acc [] = acc"
| "pushUnseen seen acc (it # its) =
     (if id_of it \<notin> seen then pushUnseen seen (acc @ [it]) its
      else pushUnseen seen acc its)"

definition getNewItems :: "('a item_scheme) list \<Rightarrow> watermarkState \<Rightarrow> ('a item_scheme) diffResult" where
  "getNewItems scoredItems previousState =
     (if \<not> initialized previousState then \<lparr>newItems = [], isFirstRun = True\<rparr>
      else \<lparr>newItems = pushUnseen (collectSeen {} (map snd (sources previousState))) [] scoredItems,
            isFirstRun = False\<rparr>)"

subsection \<open>updateState\<close>

datatype jsError = TypeError string

text \<open>
  \<open>itemsBySource\<close> is created as \<open>{}\<close>, so a property read that finds no own property
  goes on to \<open>Object.prototype\<close>. These are the names found there; each of them holds a
  function or an object, which is truthy and has no \<open>push\<close> method.
\<close>

definition objectPrototypeNames :: "string list" where
  "objectPrototypeNames =
     [''constructor'', ''__defineGetter__'', ''__defineSetter__'', ''hasOwnProperty'',
      ''__lookupGetter__'', ''__lookupSetter__'', ''isPrototypeOf'', ''propertyIsEnumerable'',
      ''toString'', ''valueOf'', ''__proto__'', ''toLocaleString'']"

fun setOwn :: "string \<Rightarrow> 'v \<Rightarrow> (string \<times> 'v) list \<Rightarrow> (string \<times> 'v) list" where
  "setOwn k v [] = [(k, v)]"
| "setOwn k v ((k', v') # kvs) = (if k' = k then (k, v) # kvs else (k', v') # setOwn k v kvs)"

text \<open>
  The grouping loop. With an own property for the item's source the item is pushed onto
  its array. Without one, an inherited name makes the test \<open>!itemsBySource[item.source]\<close>
  false and the call of \<open>push\<close> throws; any other name gets a fresh array.
\<close>

fun groupBySource :: "(string \<times> ('a item_scheme) list) list \<Rightarrow> ('a item_scheme) list
    \<Rightarrow> jsError + (string \<times> ('a item_scheme) list) list" where
  "groupBySource acc [] = Inr acc"
| "groupBySource acc (it # its) =
     (case map_of acc (source it) of
        Some xs \<Rightarrow> groupBySource (setOwn (source it) (xs @ [it]) acc) its
      | None \<Rightarrow>
          if source it \<in> set objectPrototypeNames
          then Inl (TypeError ''itemsBySource[item.source].push is not a function'')
          else groupBySource (setOwn (source it) [it] acc) its)"

definition latestOf :: "('a item_scheme) list \<Rightarrow> latestItem option" where
  "latestOf items =
     (case items of
        [] \<Rightarrow> None
      | it # _ \<Rightarrow> Some \<lparr>latestId = id_of it, latestTitle = title it,
                         latestPublishedAt = publishedAt it\<rparr>)"

text \<open>
  The second loop, over the entries of \<open>itemsBySource\<close> in the order that
  \<open>Object.entries\<close> lists them. The clock is read once for
  \<open>lastRun\<close> and once per source: \<open>clock n\<close> is the n-th reading. (No name in
  \<open>itemsBySource\<close> is a name of \<open>Object.prototype\<close>, so each assignment to
  \<open>state.sources[sourceId]\<close> writes an own property.)
\<close>

fun buildSources :: "(nat \<Rightarrow> string) \<Rightarrow> nat \<Rightarrow> (string \<times> sourceState) list
    \<Rightarrow> (string \<times> ('a item_scheme) list) list \<Rightarrow> (string \<times> sourceState) list" where
  "buildSources clock n acc [] = acc"
| "buildSources clock n acc ((sourceId, items) # rest) =
     buildSources clock (Suc n)
       (setOwn sourceId
          \<lparr>lastUpdated = clock n, itemCount = length items,
           seenIds = Some (map id_of items), latest = latestOf items\<rparr> acc)
       rest"

definition updateState :: "(nat \<Rightarrow> string) \<Rightarrow> ('a item_scheme) list \<Rightarrow> jsError + watermarkState" where
  "updateState clock scoredItems =
     (case groupBySource [] scoredItems of
        Inl e \<Rightarrow> Inl e
      | Inr itemsBySource \<Rightarrow>
          Inr \<lparr>lastRun = Some (clock 0), initialized = True,
               sources = buildSources clock 1 [] (ownEntries itemsBySource)\<rparr>)"

subsection \<open>The set of seen ids, as the specification words it\<close>

text \<open>
  The union of the \<open>seenIds\<close> sets across all sources of a state, as the specification
  words it.
\<close>

definition seenOf :: "(string \<times> sourceState) list \<Rightarrow> string set" where
  "seenOf srcs = (\<Union>st \<in> snd ` set srcs. case seenIds st of None \<Rightarrow> {} | Some ids \<Rightarrow> set ids)"

definition seenUnion :: "watermarkState \<Rightarrow> string set" where
  "seenUnion S = (\<Union>st \<in> snd ` set (sources S). case seenIds st of None \<Rightarrow> {} | Some ids \<Rightarrow> set ids)"

section \<open>Severity scoring (lib/scorer.js)\<close>

text \<open>
  \<open>SEVERITY_LEVELS\<close>. The README gives critical, high, medium and low as the values of a
  source's \<open>severityHint\<close>, so the hint is a level or is absent.
\<close>

datatype severity = Critical | High | Medium | Low

record sourceDescriptor =
  sourceId :: string
  name :: string
  category :: string
  filter_of :: "string option"
  severityHint :: "severity option"
  enabled :: bool

definition CRITICAL_KEYWORDS :: "string list" where
  "CRITICAL_KEYWORDS =
     [''security vulnerability'', ''security issue'', ''vulnerability'', ''cve-'',
      ''remote code execution'', ''certificate expir'', ''service disruption'', ''outage'',
      ''forced upgrade'', ''end-of-life'', ''eol imminent'', ''critical security'', ''zero-day'',
      ''exploit'', ''malicious'', ''data breach'', ''unauthorized access'']"

definition HIGH_KEYWORDS :: "string list" where
  "HIGH_KEYWORDS =
     [''breaking change'', ''breaking:'', ''deprecated'', ''deprecation'', ''removal'', ''removed'',
      ''required action'', ''action required'', ''must upgrade'', ''must update'', ''major version'',
      ''api removal'', ''pricing change'', ''price increase'', ''end of support'',
      ''migration required'', ''incompatible'', ''required update'', ''urgent'']"

definition MEDIUM_KEYWORDS :: "string list" where
  "MEDIUM_KEYWORDS =
     [''minor version'', ''new feature'', ''enhancement'', ''improvement'', ''performance'',
      ''bug fix'', ''known issue'', ''workaround'', ''recommended update'', ''update available'',
      ''patch'', ''maintenance'']"

definition LOW_KEYWORDS :: "string list" where
  "LOW_KEYWORDS =
     [''documentation'', ''informational'', ''announce'', ''note'', ''preview'', ''beta'', ''alpha'']"

subsection \<open>Characters\<close>

text \<open>
  \<open>String.prototype.toLowerCase\<close> on a code unit below 256: the letters A to Z and the
  accented capitals 192 to 222 (215, the multiplication sign, apart) move up by 32.
\<close>

definition toLowerCaseChar :: "char \<Rightarrow> char" where
  "toLowerCaseChar c =
     (let n = (of_char c :: nat)
      in if (65 \<le> n \<and> n \<le> 90) \<or> (192 \<le> n \<and> n \<le> 222 \<and> n \<noteq> 215) then char_of (n + 32) else c)"

definition toLowerCase :: "string \<Rightarrow> string" where
  "toLowerCase s = map toLowerCaseChar s"

text \<open>
  The canonical form under which a regular expression with the \<open>i\<close> flag (and without
  the \<open>u\<close> flag) compares characters: the upper-case form, where that is again a single
  code unit below 256. (The code units 181, 223 and 255 have no such form and are equal
  only to themselves.)
\<close>

definition canonicalize :: "char \<Rightarrow> char" where
  "canonicalize c =
     (let n = (of_char c :: nat)
      in if (97 \<le> n \<and> n \<le> 122) \<or> (224 \<le> n \<and> n \<le> 254 \<and> n \<noteq> 247) then char_of (n - 32) else c)"

text \<open>The word characters of \<open>\b\<close>: letters, digits and the underscore.\<close>

definition isWordChar :: "char \<Rightarrow> bool" where
  "isWordChar c =
     (let n = (of_char c :: nat)
      in (97 \<le> n \<and> n \<le> 122) \<or> (65 \<le> n \<and> n \<le> 90) \<or> (48 \<le> n \<and> n \<le> 57) \<or> n = 95)"

text \<open>
  \<open>\b\<close> holds between two neighbouring positions when exactly one of them holds a word
  character; the positions before the start and after the end hold none.
\<close>

definition isWordAt :: "char option \<Rightarrow> bool" where
  "isWordAt p = (case p of None \<Rightarrow> False | Some c \<Rightarrow> isWordChar c)"

definition wordBoundary :: "char option \<Rightarrow> char option \<Rightarrow> bool" where
  "wordBoundary before after = (isWordAt before \<noteq> isWordAt after)"

definition headOpt :: "string \<Rightarrow> char option" where
  "headOpt s = (case s of [] \<Rightarrow> None | c # _ \<Rightarrow> Some c)"

subsection \<open>matchKeyword\<close>

text \<open>\<open>text.includes(k)\<close>: \<open>k\<close> starts at some position of the text.\<close>

definition startsWith :: "string \<Rightarrow> string \<Rightarrow> bool" where
  "startsWith s k = (take (length k) s = k)"

fun includes_str :: "string \<Rightarrow> string \<Rightarrow> bool" where
  "includes_str [] k = (k = [])"
| "includes_str (c # cs) k = (startsWith (c # cs) k \<or> includes_str cs k)"

text \<open>
  The expression built from the keyword is \<open>\b\<close>, the keyword with every syntax character
  escaped (so each of its characters stands for itself), \<open>\b\<close>, with the \<open>i\<close> flag.
  \<open>matchLiteral\<close> matches the keyword's characters and the closing \<open>\b\<close> from one
  position; \<open>before\<close> is the character in front of that position.
\<close>

fun matchLiteral :: "string \<Rightarrow> char option \<Rightarrow> string \<Rightarrow> bool" where
  "matchLiteral [] before rest = wordBoundary before (headOpt rest)"
| "matchLiteral (k # ks) before [] = False"
| "matchLiteral (k # ks) before (c # cs) =
     (canonicalize k = canonicalize c \<and> matchLiteral ks (Some c) cs)"

text \<open>\<open>regex.test(text)\<close>: the match is tried from every position, left to right.\<close>

fun regexTest :: "string \<Rightarrow> char option \<Rightarrow> string \<Rightarrow> bool" where
  "regexTest kw before [] = (wordBoundary before None \<and> matchLiteral kw before [])"
| "regexTest kw before (c # cs) =
     ((wordBoundary before (Some c) \<and> matchLiteral kw before (c # cs)) \<or> regexTest kw (Some c) cs)"

definition matchKeyword :: "string \<Rightarrow> string \<Rightarrow> bool" where
  "matchKeyword text keyword =
     (let lowerKeyword = toLowerCase keyword
      in if CHR ''-'' \<in> set lowerKeyword \<or> CHR '':'' \<in> set lowerKeyword
         then includes_str text lowerKeyword
         else regexTest lowerKeyword None text)"

subsection \<open>Matching, as the specification words it\<close>

text \<open>
  A keyword occurs as a plain substring of a text; a keyword occurs at whole-word
  boundaries of a text, compared without regard to case: some stretch of the text equals
  the keyword up to case, and a word boundary lies at each of its two ends. \<open>lastOr\<close>
  gives the character in front of a position: the last one of what precedes it, or
  \<open>before\<close> when nothing precedes it. \<open>occursFrom\<close> is the same notion for a text that
  follows the character \<open>before\<close>.
\<close>

definition lastOr :: "char option \<Rightarrow> string \<Rightarrow> char option" where
  "lastOr before s = (if s = [] then before else Some (last s))"

definition occursAsSubstring :: "string \<Rightarrow> string \<Rightarrow> bool" where
  "occursAsSubstring text k = (\<exists>pre post. text = pre @ k @ post)"

definition occursAtWordBoundaries :: "string \<Rightarrow> string \<Rightarrow> bool" where
  "occursAtWordBoundaries text k =
     (\<exists>pre mid post. text = pre @ mid @ post \<and> map canonicalize mid = map canonicalize k \<and>
        wordBoundary (lastOr None pre) (headOpt (mid @ post)) \<and>
        wordBoundary (lastOr None (pre @ mid)) (headOpt post))"

definition occursFrom :: "char option \<Rightarrow> string \<Rightarrow> string \<Rightarrow> bool" where
  "occursFrom before t kw =
     (\<exists>pre mid post. t = pre @ mid @ post \<and> map canonicalize mid = map canonicalize kw \<and>
        wordBoundary (lastOr before pre) (headOpt (mid @ post)) \<and>
        wordBoundary (lastOr before (pre @ mid)) (headOpt post))"

subsection \<open>scoreItem\<close>

record matches =
  critical :: "string list"
  high :: "string list"
  medium :: "string list"
  low :: "string list"

text \<open>The text that is searched, and the four loops that collect the matching keywords.\<close>

definition itemText :: "'a item_scheme \<Rightarrow> string" where
  "itemText it = toLowerCase (title it @ '' '' @ description it)"

definition findMatches :: "string \<Rightarrow> matches" where
  "findMatches text =
     \<lparr>critical = filter (matchKeyword text) CRITICAL_KEYWORDS,
      high = filter (matchKeyword text) HIGH_KEYWORDS,
      medium = filter (matchKeyword text) MEDIUM_KEYWORDS,
      low = filter (matchKeyword text) LOW_KEYWORDS\<rparr>"

text \<open>
  The severity and the reasons before any adjustment (\<open>Determine severity based on
  matches\<close>).
\<close>

definition baseSeverity :: "matches \<Rightarrow> sourceDescriptor \<Rightarrow> severity \<times> string list" where
  "baseSeverity m src =
     (if length (critical m) > 0 then (Critical, critical m)
      else if length (high m) > 0 then (High, high m)
      else if length (medium m) > 0 then (Medium, medium m)
      else if length (low m) > 0 then (Low, low m)
      else ((case severityHint src of None \<Rightarrow> Low | Some h \<Rightarrow> h), [''default from source'']))"

text \<open>
  \<open>/^v?(\d+)\.0\.0/\<close>: an optional \<open>v\<close>, one or more digits, then \<open>.0.0\<close>; whatever
  follows is not looked at.
\<close>

definition majorVersionRegex :: "string \<Rightarrow> bool" where
  "majorVersionRegex v =
     (let s = (case v of [] \<Rightarrow> [] | c # cs \<Rightarrow> if c = CHR ''v'' then cs else v)
      in takeWhile isDigit s \<noteq> [] \<and> take 4 (dropWhile isDigit s) = ''.0.0'')"

definition versionAdjust :: "'a item_scheme \<Rightarrow> severity \<times> string list \<Rightarrow> severity \<times> string list" where
  "versionAdjust it sr =
     (case version it of
        None \<Rightarrow> sr
      | Some v \<Rightarrow>
          if v \<noteq> [] \<and> majorVersionRegex v then
            (if fst sr = Low then (Medium, snd sr @ [''major version bump''])
             else if fst sr = Medium then (High, snd sr @ [''major version bump''])
             else sr)
          else sr)"

definition prereleaseAdjust :: "'a item_scheme \<Rightarrow> severity \<times> string list \<Rightarrow> severity \<times> string list" where
  "prereleaseAdjust it sr =
     (if prerelease it then
        (if fst sr = High then (Medium, snd sr @ [''pre-release (reduced severity)''])
         else if fst sr = Critical then (High, snd sr @ [''pre-release (reduced severity)''])
         else sr)
      else sr)"

text \<open>\<open>[...new Set(reasons)]\<close>: the first occurrence of each reason, in order.\<close>

fun unique :: "string list \<Rightarrow> string list \<Rightarrow> string list" where
  "unique seen [] = []"
| "unique seen (x # xs) = (if x \<in> set seen then unique seen xs else x # unique (seen @ [x]) xs)"

definition getSeverityScore :: "severity \<Rightarrow> nat" where
  "getSeverityScore s = (case s of Critical \<Rightarrow> 4 | High \<Rightarrow> 3 | Medium \<Rightarrow> 2 | Low \<Rightarrow> 1)"

record scoring =
  severity :: severity
  reasons :: "string list"
  score :: nat

definition baseScore :: "'a item_scheme \<Rightarrow> sourceDescriptor \<Rightarrow> severity \<times> string list" where
  "baseScore it src = baseSeverity (findMatches (itemText it)) src"

definition scoreItem :: "'a item_scheme \<Rightarrow> sourceDescriptor \<Rightarrow> scoring" where
  "scoreItem it src =
     (let sr = prereleaseAdjust it (versionAdjust it (baseScore it src))
      in \<lparr>severity = fst sr, reasons = take 3 (unique [] (snd sr)),
          score = getSeverityScore (fst sr)\<rparr>)"

text \<open>A phrase of the tier matches the text of the item.\<close>

definition tierMatches :: "'a item_scheme \<Rightarrow> string list \<Rightarrow> bool" where
  "tierMatches it tier = (\<exists>k \<in> set tier. matchKeyword (itemText it) k)"

section \<open>Retrieval (lib/fetchers.js)\<close>

subsection \<open>fetchUrl\<close>

text \<open>
  What the HTTP client does with a request is the environment of \<open>fetchUrl\<close>: a function
  from the requested URL to the outcome. Either a response arrives, with its status code,
  its \<open>location\<close> header and the chunks of its body, all of them and in order (no
  encoding is set on the response, so each chunk is a \<open>Buffer\<close> of bytes), or the timer
  set by
  \<open>req.setTimeout\<close> fires first, or no request can be made (the URL does not parse, or
  the request emits an error).
\<close>

type_synonym buffer = "8 word list"

record response =
  statusCode :: nat
  location :: "string option"
  chunks :: "buffer list"

datatype reply = Responds response | TimesOut | Fails string

datatype fetchError =
    RedirectWithoutLocation string
  | TooManyRedirects nat string
  | HttpError nat string
  | ResponseTooLarge nat string
  | Timeout string
  | RequestError string
  | InvalidURL string

text \<open>
  The options that \<open>fetchUrl\<close> reads. (\<open>timeout\<close> sets the timer, whose firing is an
  outcome of the environment; \<open>headers\<close> go to the client.)
\<close>

record fetchOptions =
  timeout :: "nat option"
  maxSize :: "nat option"
  maxRedirects :: "nat option"
  redirectCount :: "nat option"

text \<open>\<open>x || d\<close> on an optional number: an absent value and 0 are falsy.\<close>

definition orDefault :: "nat option \<Rightarrow> nat \<Rightarrow> nat" where
  "orDefault x d = (case x of None \<Rightarrow> d | Some n \<Rightarrow> if n = 0 then d else n)"

text \<open>
  The \<open>data\<close> handler and the \<open>end\<close> handler: \<open>chunk.length\<close> is the number of bytes
  of the chunk; the byte counts are added up, and the first chunk that takes the sum over
  \<open>maxSize\<close> rejects. Otherwise \<open>data += chunk\<close> appends the text of the chunk, which is
  its conversion to a string by the platform (\<open>Buffer.prototype.toString\<close>, UTF-8
  decoding), the parameter \<open>bufferToString\<close>; the text gathered is the result.
\<close>

fun readBody :: "(buffer \<Rightarrow> string) \<Rightarrow> nat \<Rightarrow> string \<Rightarrow> string \<Rightarrow> nat \<Rightarrow> buffer list
    \<Rightarrow> fetchError + string" where
  "readBody bufferToString maxSz u data sz [] = Inr data"
| "readBody bufferToString maxSz u data sz (chunk # rest) =
     (if sz + length chunk > maxSz then Inl (ResponseTooLarge maxSz u)
      else readBody bufferToString maxSz u (data @ bufferToString chunk) (sz + length chunk) rest)"

definition isRedirect :: "nat \<Rightarrow> bool" where
  "isRedirect code = (code \<in> set [301, 302, 307, 308])"

text \<open>
  The URL that is fetched next: the header itself when it starts with \<open>http\<close>, else its
  resolution against the current URL by \<open>new URL(redirectUrl, url)\<close>, a function of the
  platform that is a parameter here and yields \<open>None\<close> where it throws.
\<close>

definition newUrl :: "(string \<Rightarrow> string \<Rightarrow> string option) \<Rightarrow> string \<Rightarrow> string \<Rightarrow> string option" where
  "newUrl resolveUrl redirectUrl u =
     (if startsWith redirectUrl ''http'' then Some redirectUrl else resolveUrl redirectUrl u)"

function fetchUrl :: "(string \<Rightarrow> reply) \<Rightarrow> (string \<Rightarrow> string \<Rightarrow> string option) \<Rightarrow> (buffer \<Rightarrow> string)
    \<Rightarrow> string \<Rightarrow> fetchOptions \<Rightarrow> fetchError + string" where
  "fetchUrl net resolveUrl bufferToString u options =
     (case net u of
        Fails msg \<Rightarrow> Inl (RequestError msg)
      | TimesOut \<Rightarrow> Inl (Timeout u)
      | Responds res \<Rightarrow>
          if isRedirect (statusCode res) then
            (case location res of
               None \<Rightarrow> Inl (RedirectWithoutLocation u)
             | Some redirectUrl \<Rightarrow>
                 if redirectUrl = [] then Inl (RedirectWithoutLocation u)
                 else if orDefault (redirectCount options) 0 \<ge> orDefault (maxRedirects options) 5
                 then Inl (TooManyRedirects (orDefault (maxRedirects options) 5) u)
                 else
                   (case newUrl resolveUrl redirectUrl u of
                      None \<Rightarrow> Inl (InvalidURL redirectUrl)
                    | Some v \<Rightarrow>
                        fetchUrl net resolveUrl bufferToString v
                          (options\<lparr>redirectCount := Some (orDefault (redirectCount options) 0 + 1)\<rparr>)))
          else if statusCode res \<noteq> 200 then Inl (HttpError (statusCode res) u)
          else readBody bufferToString (orDefault (maxSize options) (5 * 1024 * 1024)) u [] 0 (chunks res))"
  by pat_completeness auto
termination
  by (relation "measure (\<lambda>(net, resolveUrl, bufferToString, u, options).
        orDefault (maxRedirects options) 5 - orDefault (redirectCount options) 0)")
     (auto simp: orDefault_def)

text \<open>
  A chain of redirects: each URL of the list is the one fetched next after its
  predecessor, which answers with a redirect status and a \<open>location\<close> header.
\<close>

fun redirectChain :: "(string \<Rightarrow> reply) \<Rightarrow> (string \<Rightarrow> string \<Rightarrow> string option) \<Rightarrow> string \<Rightarrow> string list \<Rightarrow> bool" where
  "redirectChain net resolveUrl u [] = True"
| "redirectChain net resolveUrl u (v # vs) =
     ((case net u of
         Responds res \<Rightarrow>
           isRedirect (statusCode res) \<and>
           (case location res of
              None \<Rightarrow> False
            | Some redirectUrl \<Rightarrow> redirectUrl \<noteq> [] \<and> newUrl resolveUrl redirectUrl u = Some v)
       | _ \<Rightarrow> False) \<and>
      redirectChain net resolveUrl v vs)"

subsection \<open>parseRSS\<close>

text \<open>
  Every regular expression of \<open>parseRSS\<close> that finds a tag has one shape: an opening
  literal, \<open>[^>]*\<close>, a literal that starts with \<open>>\<close>, a lazy \<open>[\s\S]*?\<close> that is
  captured, and a closing literal, all with the \<open>i\<close> flag. \<open>ciStartsWith\<close> matches a
  literal at the start of a string without regard to case.
\<close>

fun ciStartsWith :: "string \<Rightarrow> string \<Rightarrow> bool" where
  "ciStartsWith s [] = True"
| "ciStartsWith [] (k # ks) = False"
| "ciStartsWith (c # cs) (k # ks) = (canonicalize c = canonicalize k \<and> ciStartsWith cs ks)"

text \<open>
  The lazy part and the closing literal: the capture ends at the first position where the
  closing literal matches. The result is the capture and what follows the match.
\<close>

fun lazyUntil :: "string \<Rightarrow> string \<Rightarrow> (string \<times> string) option" where
  "lazyUntil close [] = (if close = [] then Some ([], []) else None)"
| "lazyUntil close (c # cs) =
     (if ciStartsWith (c # cs) close then Some ([], drop (length close) (c # cs))
      else (case lazyUntil close cs of
              None \<Rightarrow> None
            | Some (cap, rest) \<Rightarrow> Some (c # cap, rest)))"

text \<open>
  A match that starts at the first character. \<open>[^>]*\<close> takes every character up to the
  first \<open>>\<close>, and giving characters back cannot help, since the literal after it starts
  with \<open>>\<close>.
\<close>

definition matchTagAt :: "string \<Rightarrow> string \<Rightarrow> string \<Rightarrow> string \<Rightarrow> (string \<times> string) option" where
  "matchTagAt opening mid close s =
     (if ciStartsWith s opening then
        (let r = dropWhile (\<lambda>c. c \<noteq> CHR ''>'') (drop (length opening) s)
         in if ciStartsWith r mid then lazyUntil close (drop (length mid) r) else None)
      else None)"

text \<open>\<open>exec\<close>: the leftmost position from which the expression matches.\<close>

fun execTag :: "string \<Rightarrow> string \<Rightarrow> string \<Rightarrow> string \<Rightarrow> (string \<times> string) option" where
  "execTag opening mid close [] = matchTagAt opening mid close []"
| "execTag opening mid close (c # cs) =
     (case matchTagAt opening mid close (c # cs) of
        Some r \<Rightarrow> Some r
      | None \<Rightarrow> execTag opening mid close cs)"

text \<open>\<open>regex.exec(s)?.[1] || ''\<close>: the capture, or the empty string without a match.\<close>

definition captureOr :: "(string \<times> string) option \<Rightarrow> string" where
  "captureOr m = (case m of None \<Rightarrow> [] | Some (cap, rest) \<Rightarrow> cap)"

definition titleRegex :: "string \<Rightarrow> (string \<times> string) option" where
  "titleRegex s = execTag ''<title'' ''>'' ''</title>'' s"

definition linkRegex :: "string \<Rightarrow> (string \<times> string) option" where
  "linkRegex s = execTag ''<link'' ''>'' ''</link>'' s"

definition pubDateRegex :: "string \<Rightarrow> (string \<times> string) option" where
  "pubDateRegex s = execTag ''<pubDate'' ''>'' ''</pubDate>'' s"

definition descRegex :: "string \<Rightarrow> (string \<times> string) option" where
  "descRegex s = execTag ''<description'' ''><![CDATA['' '']]></description>'' s"

definition descRegex2 :: "string \<Rightarrow> (string \<times> string) option" where
  "descRegex2 s = execTag ''<description'' ''>'' ''</description>'' s"

definition itemRegex :: "string \<Rightarrow> (string \<times> string) option" where
  "itemRegex s = execTag ''<item'' ''>'' ''</item>'' s"

text \<open>
  \<open>trim\<close> removes white space and line terminators at both ends: among the code units
  below 256 these are 9 to 13, 32 and 160.
\<close>

definition isSpace :: "char \<Rightarrow> bool" where
  "isSpace c = (let n = (of_char c :: nat) in (9 \<le> n \<and> n \<le> 13) \<or> n = 32 \<or> n = 160)"

definition trim :: "string \<Rightarrow> string" where
  "trim s = rev (dropWhile isSpace (rev (dropWhile isSpace s)))"

text \<open>
  \<open>replace(/<[^>]+>/g, '')\<close>: from a \<open><\<close> that is followed by at least one character
  other than \<open>>\<close> and, later, by a \<open>>\<close>, everything up to that \<open>>\<close> is removed.
\<close>

lemma length_tl_dropWhile: "length (tl (dropWhile P cs)) < Suc (length cs)"
proof -
  have "length (dropWhile P cs) \<le> length cs" by (rule length_dropWhile_le)
  then show ?thesis by simp
qed

function stripTags :: "string \<Rightarrow> string" where
  "stripTags [] = []"
| "stripTags (c # cs) =
     (if c = CHR ''<'' \<and> takeWhile (\<lambda>d. d \<noteq> CHR ''>'') cs \<noteq> [] \<and> dropWhile (\<lambda>d. d \<noteq> CHR ''>'') cs \<noteq> []
      then stripTags (tl (dropWhile (\<lambda>d. d \<noteq> CHR ''>'') cs))
      else c # stripTags cs)"
  by pat_completeness auto
termination
  by (relation "measure length") (simp_all add: length_tl_dropWhile del: length_tl)

text \<open>
  \<open>decodeHTMLEntities\<close>: \<open>&\<close>, one or more letters, digits or \<open>#\<close>, and \<open>;\<close> is looked up
  in the table and replaced when it is there.
\<close>

definition entities :: "(string \<times> string) list" where
  "entities =
     [(''&amp;'', ''&''), (''&lt;'', ''<''), (''&gt;'', ''>''), (''&quot;'', [CHR 0x22]),
      (''&#39;'', [CHR 0x27]), (''&apos;'', [CHR 0x27])]"

definition isEntityChar :: "char \<Rightarrow> bool" where
  "isEntityChar c =
     (let n = (of_char c :: nat)
      in (97 \<le> n \<and> n \<le> 122) \<or> (65 \<le> n \<and> n \<le> 90) \<or> (48 \<le> n \<and> n \<le> 57) \<or> n = 35)"

function decodeHTMLEntities :: "string \<Rightarrow> string" where
  "decodeHTMLEntities [] = []"
| "decodeHTMLEntities (c # cs) =
     (if c = CHR ''&'' \<and> takeWhile isEntityChar cs \<noteq> [] \<and>
         take 1 (dropWhile isEntityChar cs) = '';''
      then (case map_of entities (c # takeWhile isEntityChar cs @ '';'') of
              Some v \<Rightarrow> v
            | None \<Rightarrow> c # takeWhile isEntityChar cs @ '';'') @
           decodeHTMLEntities (tl (dropWhile isEntityChar cs))
      else c # decodeHTMLEntities cs)"
  by pat_completeness auto
termination
  by (relation "measure length") (simp_all add: length_tl_dropWhile del: length_tl)

record rssItem =
  rssTitle :: string
  rssLink :: string
  rssDescription :: string
  pubDate :: string
  date :: "int option"

text \<open>
  The fields that the loop body reads from one entry block. The clock and the parsing of
  a date by \<open>new Date\<close> belong to the platform and are parameters: \<open>dateOf\<close> yields
  \<open>None\<close> for a string that is no date (\<open>getTime\<close> is then NaN).
\<close>

definition entryTitle :: "string \<Rightarrow> string" where
  "entryTitle itemXml = trim (captureOr (titleRegex itemXml))"

definition entryLink :: "string \<Rightarrow> string" where
  "entryLink itemXml = trim (captureOr (linkRegex itemXml))"

definition entryPubDate :: "string \<Rightarrow> string" where
  "entryPubDate itemXml = trim (captureOr (pubDateRegex itemXml))"

definition entryDescription :: "string \<Rightarrow> string" where
  "entryDescription itemXml =
     trim (stripTags
       (if captureOr (descRegex itemXml) \<noteq> [] then captureOr (descRegex itemXml)
        else captureOr (descRegex2 itemXml)))"

definition rssEntry :: "(string \<Rightarrow> int option) \<Rightarrow> int \<Rightarrow> string \<Rightarrow> rssItem" where
  "rssEntry dateOf now itemXml =
     \<lparr>rssTitle = decodeHTMLEntities (entryTitle itemXml),
      rssLink = decodeHTMLEntities (entryLink itemXml),
      rssDescription = decodeHTMLEntities (take 500 (entryDescription itemXml)),
      pubDate = entryPubDate itemXml,
      date = (if entryPubDate itemXml \<noteq> [] then dateOf (entryPubDate itemXml) else Some now)\<rparr>"

lemma ciStartsWith_length: "ciStartsWith s k \<Longrightarrow> length k \<le> length s"
  by (induction s k rule: ciStartsWith.induct) simp_all

lemma lazyUntil_length: "lazyUntil close s = Some (cap, rest) \<Longrightarrow> length rest \<le> length s"
  by (induction s arbitrary: cap rest) (auto split: if_splits option.splits)

lemma matchTagAt_length:
  assumes "matchTagAt opening mid close s = Some (cap, rest)" and "mid \<noteq> []"
  shows "length rest < length s"
proof -
  let ?r = "dropWhile (\<lambda>c. c \<noteq> CHR ''>'') (drop (length opening) s)"
  from assms(1) have m: "ciStartsWith ?r mid" and l: "lazyUntil close (drop (length mid) ?r) = Some (cap, rest)"
    by (auto simp: matchTagAt_def Let_def split: if_splits)
  from m assms(2) have "0 < length mid" "length mid \<le> length ?r"
    by (auto dest: ciStartsWith_length)
  moreover have "length ?r \<le> length s"
    by (rule order_trans [OF length_dropWhile_le]) simp
  moreover from l have "length rest \<le> length ?r - length mid"
    by (auto dest: lazyUntil_length)
  ultimately show ?thesis by arith
qed

lemma execTag_length:
  "execTag opening mid close s = Some (cap, rest) \<Longrightarrow> mid \<noteq> [] \<Longrightarrow> length rest < length s"
proof (induction s)
  case Nil
  then show ?case by (auto dest: matchTagAt_length)
next
  case (Cons c cs)
  then show ?case
    by (cases "matchTagAt opening mid close (c # cs)") (auto dest: matchTagAt_length)
qed

lemma itemRegex_length: "itemRegex s = Some (cap, rest) \<Longrightarrow> length rest < length s"
  unfolding itemRegex_def by (erule execTag_length) simp

text \<open>
  The loop of \<open>parseRSS\<close>: \<open>exec\<close> goes on from the end of the previous match, and the
  loop ends when there is no further match or twenty entries have been pushed. An entry is
  pushed when \<open>title && link\<close> holds, that is, when neither string is empty.
\<close>

function parseLoop :: "(string \<Rightarrow> int option) \<Rightarrow> int \<Rightarrow> string \<Rightarrow> nat \<Rightarrow> rssItem list \<Rightarrow> rssItem list" where
  "parseLoop dateOf now xml count items =
     (case itemRegex xml of
        None \<Rightarrow> items
      | Some (itemXml, rest) \<Rightarrow>
          if count < 20 then
            (if entryTitle itemXml \<noteq> [] \<and> entryLink itemXml \<noteq> []
             then parseLoop dateOf now rest (count + 1) (items @ [rssEntry dateOf now itemXml])
             else parseLoop dateOf now rest count items)
          else items)"
  by pat_completeness auto
termination
  by (relation "measure (\<lambda>(dateOf, now, xml, count, items). length xml)")
     (auto dest: itemRegex_length)

definition parseRSS :: "(string \<Rightarrow> int option) \<Rightarrow> int \<Rightarrow> string \<Rightarrow> rssItem list" where
  "parseRSS dateOf now xml =
     parseLoop dateOf now
       (if length xml > 2 * 1024 * 1024 then take (2 * 1024 * 1024) xml else xml) 0 []"

text \<open>The filter step of \<open>fetchRSS\<close>: a source with a (non-empty) filter keeps the entries
  whose title or description contains it.\<close>

definition applyFilter :: "sourceDescriptor \<Rightarrow> rssItem list \<Rightarrow> rssItem list" where
  "applyFilter src items =
     (case filter_of src of
        None \<Rightarrow> items
      | Some f \<Rightarrow>
          if f = [] then items
          else filter (\<lambda>it. includes_str (rssTitle it) f \<or> includes_str (rssDescription it) f) items)"

text \<open>
  The entry blocks of a feed, in order: the successive results of \<open>itemRegex.exec\<close>. The
  parsed feed entries that the specification speaks of are these blocks.
\<close>

function itemBlocks :: "string \<Rightarrow> string list" where
  "itemBlocks xml =
     (case itemRegex xml of
        None \<Rightarrow> []
      | Some (itemXml, rest) \<Rightarrow> itemXml # itemBlocks rest)"
  by pat_completeness auto
termination
  by (relation "measure length") (auto dest: itemRegex_length)

declare parseLoop.simps [simp del] itemBlocks.simps [simp del]

text \<open>The test \<open>title && link\<close> on an entry block.\<close>

definition keepsEntry :: "string \<Rightarrow> bool" where
  "keepsEntry itemXml = (entryTitle itemXml \<noteq> [] \<and> entryLink itemXml \<noteq> [])"

section \<open>Sample data\<close>

definition mkItem :: "string \<Rightarrow> string \<Rightarrow> item" where
  "mkItem i src =
     \<lparr>id_of = i, title = ''Release'', url = ''https://example.com/r'', description = ''notes'',
      publishedAt = 1700000000000, source = src, version = None, prerelease = False\<rparr>"

definition mkEntry :: "string list option \<Rightarrow> sourceState" where
  "mkEntry ids = \<lparr>lastUpdated = ''2024-01-01T00:00:00.000Z'', itemCount = 2, seenIds = ids, latest = None\<rparr>"

definition freshState :: watermarkState where
  "freshState = \<lparr>lastRun = None, initialized = False, sources = []\<rparr>"

definition stateA :: watermarkState where
  "stateA = \<lparr>lastRun = Some ''2024-01-01T00:00:00.000Z'', initialized = True,
              sources = [(''A'', mkEntry (Some [''x1'', ''x2'']))]\<rparr>"

definition stateNoIds :: watermarkState where
  "stateNoIds = \<lparr>lastRun = Some ''2024-01-01T00:00:00.000Z'', initialized = True,
                  sources = [(''A'', mkEntry None)]\<rparr>"

definition mkSource :: "severity option \<Rightarrow> sourceDescriptor" where
  "mkSource hint =
     \<lparr>sourceId = ''A'', name = ''Project A'', category = ''app'', filter_of = None,
      severityHint = hint, enabled = True\<rparr>"

definition cveItem :: item where
  "cveItem = (mkItem ''x1'' ''A'')\<lparr>title := ''CVE-1 Note'', description := [], prerelease := True\<rparr>"

definition plainItem :: item where
  "plainItem = (mkItem ''x2'' ''A'')\<lparr>title := ''V2'', description := [], version := Some ''v2.0.0''\<rparr>"

definition keepUrl :: "string \<Rightarrow> string \<Rightarrow> string option" where
  "keepUrl redirectUrl u = Some redirectUrl"

definition redirectTo :: "string \<Rightarrow> reply" where
  "redirectTo v = Responds \<lparr>statusCode = 302, location = Some v, chunks = []\<rparr>"

text \<open>
  A host on which \<open>/0\<close> redirects to \<open>/1\<close>, and so on up to \<open>/5\<close>, which redirects to
  \<open>/6\<close>; \<open>/6\<close> answers 200 with the bytes of \<open>release\<close> in two chunks,
  \<open>/accents\<close> answers 200 with the six bytes that encode three times U+00E9,
  \<open>/created\<close> answers 201, and every other path 404.
\<close>

definition releaseResponse :: response where
  "releaseResponse =
     \<lparr>statusCode = 200, location = None, chunks = [[0x72, 0x65], [0x6C, 0x65, 0x61, 0x73, 0x65]]\<rparr>"

definition accentsResponse :: response where
  "accentsResponse =
     \<lparr>statusCode = 200, location = None, chunks = [[0xC3, 0xA9], [0xC3, 0xA9, 0xC3, 0xA9]]\<rparr>"

definition createdResponse :: response where
  "createdResponse = \<lparr>statusCode = 201, location = None, chunks = [[0x6F, 0x6B]]\<rparr>"

definition missingResponse :: response where
  "missingResponse =
     \<lparr>statusCode = 404, location = None,
      chunks = [[0x6E, 0x6F, 0x74, 0x20, 0x66, 0x6F, 0x75, 0x6E, 0x64]]\<rparr>"

definition chainNet :: "string \<Rightarrow> reply" where
  "chainNet u =
     (if u = ''http://a/0'' then redirectTo ''http://a/1''
      else if u = ''http://a/1'' then redirectTo ''http://a/2''
      else if u = ''http://a/2'' then redirectTo ''http://a/3''
      else if u = ''http://a/3'' then redirectTo ''http://a/4''
      else if u = ''http://a/4'' then redirectTo ''http://a/5''
      else if u = ''http://a/5'' then redirectTo ''http://a/6''
      else if u = ''http://a/6'' then Responds releaseResponse
      else if u = ''http://a/accents'' then Responds accentsResponse
      else if u = ''http://a/created'' then Responds createdResponse
      else Responds missingResponse)"

text \<open>
  The text of a buffer whose bytes are all below 128, on which UTF-8 decoding gives one
  character per byte.
\<close>

definition asciiText :: "buffer \<Rightarrow> string" where
  "asciiText bs = map (\<lambda>b. char_of (unat b)) bs"

definition fiveRedirects :: fetchOptions where
  "fiveRedirects = \<lparr>timeout = None, maxSize = None, maxRedirects = Some 5, redirectCount = None\<rparr>"

definition capFive :: fetchOptions where
  "capFive = \<lparr>timeout = None, maxSize = Some 5, maxRedirects = Some 5, redirectCount = None\<rparr>"

definition noDate :: "string \<Rightarrow> int option" where
  "noDate s = None"

text \<open>A feed of three entries: one with title and link, one with a title only, one with a
  link only.\<close>

definition threeEntries :: string where
  "threeEntries =
     ''<rss><item><title>Release 1</title><link>http://a/1</link></item>'' @
     ''<item><title>Release 2</title></item>'' @
     ''<item><link>http://a/3</link></item></rss>''"

section \<open>Properties of the watermark store\<close>

lemma collectSeen_eq:
  "collectSeen seen sts = seen \<union> (\<Union>st \<in> set sts. case seenIds st of None \<Rightarrow> {} | Some ids \<Rightarrow> set ids)"
  by (induction sts arbitrary: seen) (auto split: option.splits)

lemma collectSeen_seenUnion: "collectSeen {} (map snd (sources S)) = seenUnion S"
  by (simp add: collectSeen_eq seenUnion_def)

lemma pushUnseen_eq: "pushUnseen seen acc its = acc @ filter (\<lambda>it. id_of it \<notin> seen) its"
  by (induction its arbitrary: acc) simp_all

lemma getNewItems_eq:
  "getNewItems B S =
     (if \<not> initialized S then \<lparr>newItems = [], isFirstRun = True\<rparr>
      else \<lparr>newItems = filter (\<lambda>it. id_of it \<notin> seenUnion S) B, isFirstRun = False\<rparr>)"
  by (simp add: getNewItems_def pushUnseen_eq collectSeen_seenUnion)

text \<open>
  C1. On an uninitialized previous state getNewItems returns no new items and
  isFirstRun = true, whatever the batch holds. On an initialized one it returns
  isFirstRun = false and, as newItems, the items of the batch whose id is not in the union
  of the seenIds sets of all sources, in the order of the batch.
\<close>

theorem getNewItems_diff:
  "(\<not> initialized S \<longrightarrow> getNewItems B S = \<lparr>newItems = [], isFirstRun = True\<rparr>) \<and>
   (initialized S \<longrightarrow>
      getNewItems B S = \<lparr>newItems = filter (\<lambda>it. id_of it \<notin> seenUnion S) B, isFirstRun = False\<rparr>)"
  by (simp add: getNewItems_eq)

theorem getNewItems_diff_witness:
  "getNewItems [mkItem ''x1'' ''A'', mkItem ''x2'' ''A''] freshState
     = \<lparr>newItems = [], isFirstRun = True\<rparr> \<and>
   getNewItems [mkItem ''x1'' ''A'', mkItem ''x2'' ''A'', mkItem ''x3'' ''A''] stateA
     = \<lparr>newItems = [mkItem ''x3'' ''A''], isFirstRun = False\<rparr>"
  using getNewItems_diff [of freshState "[mkItem ''x1'' ''A'', mkItem ''x2'' ''A'']"]
    getNewItems_diff [of stateA "[mkItem ''x1'' ''A'', mkItem ''x2'' ''A'', mkItem ''x3'' ''A'']"]
  by (simp add: freshState_def stateA_def seenUnion_def mkEntry_def mkItem_def)

text \<open>
  C10. On an initialized state the entries without a seenIds field add nothing to the set
  of seen ids: the result is the one obtained with those entries left out, and when no
  entry has the field every item of the batch is reported as new. getNewItems has no
  failing branch on such a state (reading an absent field yields a falsy value and the
  entry is skipped).
\<close>

theorem getNewItems_missing_seenIds:
  assumes "initialized S"
  shows "getNewItems B S
           = getNewItems B (S\<lparr>sources := filter (\<lambda>e. seenIds (snd e) \<noteq> None) (sources S)\<rparr>) \<and>
         ((\<forall>e \<in> set (sources S). seenIds (snd e) = None) \<longrightarrow>
            getNewItems B S = \<lparr>newItems = B, isFirstRun = False\<rparr>)"
proof -
  have "seenUnion (S\<lparr>sources := filter (\<lambda>e. seenIds (snd e) \<noteq> None) (sources S)\<rparr>) = seenUnion S"
    by (auto simp: seenUnion_def split: option.splits)
  moreover have "(\<forall>e \<in> set (sources S). seenIds (snd e) = None) \<Longrightarrow> seenUnion S = {}"
    by (auto simp: seenUnion_def split: option.splits)
  ultimately show ?thesis
    using assms by (simp add: getNewItems_eq)
qed

theorem getNewItems_missing_seenIds_witness:
  "initialized stateNoIds \<and>
   getNewItems [mkItem ''x1'' ''A'', mkItem ''x2'' ''A''] stateNoIds
     = \<lparr>newItems = [mkItem ''x1'' ''A'', mkItem ''x2'' ''A''], isFirstRun = False\<rparr>"
  using getNewItems_missing_seenIds [of stateNoIds "[mkItem ''x1'' ''A'', mkItem ''x2'' ''A'']"]
  by (simp add: stateNoIds_def mkEntry_def getNewItems_eq seenUnion_def)

subsection \<open>Snapshot and diff\<close>

lemma setOwn_absent: "k \<notin> fst ` set kvs \<Longrightarrow> setOwn k v kvs = kvs @ [(k, v)]"
  by (induction kvs) auto

lemma setOwn_keys: "k \<in> fst ` set kvs \<Longrightarrow> map fst (setOwn k v kvs) = map fst kvs"
  by (induction kvs) force+

lemma setOwn_values:
  "map_of kvs k = Some xs \<Longrightarrow>
   (\<Union>e \<in> set (setOwn k (xs @ [x]) kvs). set (snd e)) = (\<Union>e \<in> set kvs. set (snd e)) \<union> {x}"
proof (induction kvs)
  case Nil
  then show ?case by simp
next
  case (Cons e kvs)
  obtain k' v' where e: "e = (k', v')" by (cases e)
  show ?case
  proof (cases "k' = k")
    case True
    with Cons.prems e have "v' = xs" by simp
    with True e show ?thesis by (simp add: Un_commute Un_left_commute insert_commute)
  next
    case False
    with Cons.prems e have "map_of kvs k = Some xs" by simp
    from Cons.IH [OF this] False e show ?thesis by (simp add: Un_assoc)
  qed
qed

lemma groupBySource_groups:
  "groupBySource acc B = Inr g \<Longrightarrow> distinct (map fst acc) \<Longrightarrow>
   distinct (map fst g) \<and> (\<Union>e \<in> set g. set (snd e)) = (\<Union>e \<in> set acc. set (snd e)) \<union> set B"
proof (induction B arbitrary: acc)
  case Nil
  then show ?case by simp
next
  case (Cons it its)
  show ?case
  proof (cases "map_of acc (source it)")
    case None
    with Cons.prems have notin: "source it \<notin> fst ` set acc"
      by (simp add: map_of_eq_None_iff)
    from None Cons.prems have g: "groupBySource (acc @ [(source it, [it])]) its = Inr g"
      by (simp add: setOwn_absent notin split: if_splits)
    have "distinct (map fst (acc @ [(source it, [it])]))"
      using Cons.prems(2) notin by auto
    from Cons.IH [OF g this] show ?thesis by auto
  next
    case (Some xs)
    with Cons.prems have g: "groupBySource (setOwn (source it) (xs @ [it]) acc) its = Inr g"
      by simp
    from Some have "source it \<in> fst ` set acc"
      by (metis map_of_eq_None_iff option.distinct(1))
    then have "distinct (map fst (setOwn (source it) (xs @ [it]) acc))"
      using Cons.prems(2) by (simp add: setOwn_keys)
    from Cons.IH [OF g this] setOwn_values [OF Some, of it] show ?thesis by auto
  qed
qed

lemma buildSources_seen:
  "distinct (map fst g) \<Longrightarrow> fst ` set acc \<inter> fst ` set g = {} \<Longrightarrow>
   seenOf (buildSources clock n acc g) = seenOf acc \<union> (\<Union>e \<in> set g. id_of ` set (snd e))"
proof (induction g arbitrary: acc n)
  case Nil
  then show ?case by simp
next
  case (Cons e g)
  obtain k items where e: "e = (k, items)" by (cases e)
  from Cons.prems e have notin: "k \<notin> fst ` set acc" by auto
  let ?st = "\<lparr>lastUpdated = clock n, itemCount = length items,
           seenIds = Some (map id_of items), latest = latestOf items\<rparr>"
  have d: "distinct (map fst g)" using Cons.prems by simp
  have disj: "fst ` set (acc @ [(k, ?st)]) \<inter> fst ` set g = {}"
    using Cons.prems e by auto
  have "seenOf (buildSources clock n acc (e # g)) = seenOf (buildSources clock (Suc n) (acc @ [(k, ?st)]) g)"
    by (simp add: e setOwn_absent [OF notin])
  also have "\<dots> = seenOf (acc @ [(k, ?st)]) \<union> (\<Union>e \<in> set g. id_of ` set (snd e))"
    by (rule Cons.IH [OF d disj])
  also have "\<dots> = seenOf acc \<union> (\<Union>e \<in> set (e # g). id_of ` set (snd e))"
    by (auto simp: seenOf_def e)
  finally show ?case .
qed

lemma set_ownEntries: "set (ownEntries kvs) = set kvs"
  by (auto simp: ownEntries_def)

lemma distinct_ownEntries:
  assumes "distinct (map fst kvs)"
  shows "distinct (map fst (ownEntries kvs))"
proof -
  from assms have d: "distinct kvs" and i: "inj_on fst (set kvs)"
    by (simp_all add: distinct_map)
  from d have "distinct (ownEntries kvs)"
    by (auto simp: ownEntries_def)
  with i show ?thesis
    by (simp add: distinct_map set_ownEntries)
qed

lemma updateState_roundtrip:
  assumes "updateState clock B = Inr S"
  shows "getNewItems B S = \<lparr>newItems = [], isFirstRun = False\<rparr>"
proof -
  from assms obtain g where g: "groupBySource [] B = Inr g"
    and S: "S = \<lparr>lastRun = Some (clock 0), initialized = True,
                 sources = buildSources clock 1 [] (ownEntries g)\<rparr>"
    by (auto simp: updateState_def split: sum.splits)
  from groupBySource_groups [OF g] have dg: "distinct (map fst (ownEntries g))"
    and cover: "(\<Union>e \<in> set (ownEntries g). set (snd e)) = set B"
    by (simp_all add: distinct_ownEntries set_ownEntries)
  have "seenUnion S = seenOf (buildSources clock 1 [] (ownEntries g))"
    by (simp add: S seenUnion_def seenOf_def)
  also have "\<dots> = (\<Union>e \<in> set (ownEntries g). id_of ` set (snd e))"
    using buildSources_seen [OF dg, of "[]" clock 1] by (simp add: seenOf_def)
  also have "\<dots> = id_of ` set B"
    using cover by blast
  finally have "seenUnion S = id_of ` set B" .
  then have "filter (\<lambda>it. id_of it \<notin> seenUnion S) B = []"
    by (auto simp: filter_empty_conv)
  then show ?thesis by (simp add: getNewItems_eq S)
qed

text \<open>
  Source ids that are array indices come first in the snapshot, in numeric order, and take
  the earlier clock readings.
\<close>

lemma updateState_index_like_order:
  "map_sum id (\<lambda>S. map (\<lambda>e. (fst e, lastUpdated (snd e), seenIds (snd e))) (sources S))
     (updateState clock [mkItem ''x1'' ''b'', mkItem ''x2'' ''10'', mkItem ''x3'' ''b'', mkItem ''x4'' ''2''])
   = Inr [(''2'', clock 1, Some [''x4'']), (''10'', clock 2, Some [''x2'']),
          (''b'', clock 3, Some [''x1'', ''x3''])]"
proof -
  have "map_sum id (\<lambda>S. map (\<lambda>e. (fst e, lastUpdated (snd e), seenIds (snd e))) (sources S))
     (updateState clock [mkItem ''x1'' ''b'', mkItem ''x2'' ''10'', mkItem ''x3'' ''b'', mkItem ''x4'' ''2''])
   = Inr [(''2'', clock (Suc 0), Some [''x4'']), (''10'', clock (Suc (Suc 0)), Some [''x2'']),
          (''b'', clock (Suc (Suc (Suc 0))), Some [''x1'', ''x3''])]"
    by (simp add: updateState_def mkItem_def objectPrototypeNames_def ownEntries_def isArrayIndex_def
        indexValue_def isDigit_def)
  moreover have "(1::nat) = Suc 0" "(2::nat) = Suc (Suc 0)" "(3::nat) = Suc (Suc (Suc 0))"
    by simp_all
  ultimately show ?thesis by metis
qed

lemma groupBySource_fails_iff:
  "fst ` set acc \<inter> set objectPrototypeNames = {} \<Longrightarrow>
   (\<exists>e. groupBySource acc B = Inl e) \<longleftrightarrow> (\<exists>it \<in> set B. source it \<in> set objectPrototypeNames)"
proof (induction B arbitrary: acc)
  case Nil
  then show ?case by simp
next
  case (Cons it its)
  show ?case
  proof (cases "map_of acc (source it)")
    case None
    then have notin: "source it \<notin> fst ` set acc" by (simp add: map_of_eq_None_iff)
    show ?thesis
    proof (cases "source it \<in> set objectPrototypeNames")
      case True
      with None show ?thesis by simp
    next
      case False
      have "fst ` set (acc @ [(source it, [it])]) \<inter> set objectPrototypeNames = {}"
        using Cons.prems False by auto
      from Cons.IH [OF this] None False show ?thesis
        by (simp add: setOwn_absent [OF notin])
    qed
  next
    case (Some xs)
    then have isin: "source it \<in> fst ` set acc"
      by (metis map_of_eq_None_iff option.distinct(1))
    with Cons.prems have ok: "source it \<notin> set objectPrototypeNames" by auto
    have "fst ` set (setOwn (source it) (xs @ [it]) acc) = fst ` set acc"
      using setOwn_keys [OF isin, of "xs @ [it]"]
      by (metis list.set_map)
    with Cons.prems have "fst ` set (setOwn (source it) (xs @ [it]) acc) \<inter> set objectPrototypeNames = {}"
      by simp
    from Cons.IH [OF this] Some ok show ?thesis by simp
  qed
qed

lemma updateState_fails_iff:
  "(\<exists>e. updateState clock B = Inl e) \<longleftrightarrow> (\<exists>it \<in> set B. source it \<in> set objectPrototypeNames)"
  using groupBySource_fails_iff [of "[]" B]
  by (auto simp: updateState_def split: sum.splits)

text \<open>
  C2. The specification asks that diffing a batch against the snapshot built from that
  same batch yields no new items. updateState does not get as far as building the
  snapshot when an item's source id is a name found on \<open>Object.prototype\<close>: for the batch
  of one item of the source \<open>constructor\<close> the grouping loop throws a TypeError. (On every
  batch without such a source id the round trip holds: \<open>updateState_fails_iff\<close>,
  \<open>updateState_roundtrip\<close>.)
\<close>

theorem updateState_inherited_name_throws:
  "updateState clock [mkItem ''x1'' ''constructor'']
     = Inl (TypeError ''itemsBySource[item.source].push is not a function'')"
  by (simp add: updateState_def mkItem_def objectPrototypeNames_def)

section \<open>Properties of the scorer\<close>

subsection \<open>matchKeyword\<close>

lemma of_char_lt: "(of_char c :: nat) < 256"
  by (metis of_char_mod_256 mod_less_divisor zero_less_numeral)

lemma canonicalize_toLowerCaseChar: "canonicalize (toLowerCaseChar c) = canonicalize c"
proof -
  let ?n = "of_char c :: nat"
  have lt: "?n < 256" by (rule of_char_lt)
  show ?thesis
  proof (cases "(65 \<le> ?n \<and> ?n \<le> 90) \<or> (192 \<le> ?n \<and> ?n \<le> 222 \<and> ?n \<noteq> 215)")
    case True
    then have l: "toLowerCaseChar c = char_of (?n + 32)"
      by (simp add: toLowerCaseChar_def)
    from True have m: "(of_char (char_of (?n + 32)) :: nat) = ?n + 32"
      by auto
    from True have c1: "canonicalize (char_of (?n + 32)) = char_of ?n"
      unfolding canonicalize_def m Let_def by auto
    from True have c2: "canonicalize c = c"
      unfolding canonicalize_def Let_def by auto
    show ?thesis by (simp add: l c1 c2)
  next
    case False
    then show ?thesis by (auto simp: toLowerCaseChar_def Let_def)
  qed
qed

lemma toLowerCaseChar_cases:
  "toLowerCaseChar c = c \<or> (97 \<le> (of_char (toLowerCaseChar c) :: nat))"
proof -
  let ?n = "of_char c :: nat"
  show ?thesis
  proof (cases "(65 \<le> ?n \<and> ?n \<le> 90) \<or> (192 \<le> ?n \<and> ?n \<le> 222 \<and> ?n \<noteq> 215)")
    case True
    then have l: "toLowerCaseChar c = char_of (?n + 32)"
      by (simp add: toLowerCaseChar_def)
    from True have m: "(of_char (char_of (?n + 32)) :: nat) = ?n + 32"
      by auto
    from True show ?thesis unfolding l m by auto
  next
    case False
    then show ?thesis by (auto simp: toLowerCaseChar_def Let_def)
  qed
qed

lemma toLowerCaseChar_fixes:
  assumes "(of_char d :: nat) < 65"
  shows "toLowerCaseChar c = d \<longleftrightarrow> c = d"
proof
  assume "toLowerCaseChar c = d"
  with toLowerCaseChar_cases [of c] assms show "c = d" by auto
next
  assume "c = d"
  with assms show "toLowerCaseChar c = d" by (auto simp: toLowerCaseChar_def Let_def)
qed

lemma toLowerCase_hyphen_colon:
  "CHR ''-'' \<in> set (toLowerCase k) \<longleftrightarrow> CHR ''-'' \<in> set k"
  "CHR '':'' \<in> set (toLowerCase k) \<longleftrightarrow> CHR '':'' \<in> set k"
  by (induction k) (simp_all add: toLowerCase_def toLowerCaseChar_fixes eq_commute [of "CHR ''-''"] eq_commute [of "CHR '':''"])

lemma map_canonicalize_toLowerCase: "map canonicalize (toLowerCase k) = map canonicalize k"
  by (simp add: toLowerCase_def canonicalize_toLowerCaseChar)

lemma startsWith_iff: "startsWith s k \<longleftrightarrow> (\<exists>post. s = k @ post)"
  unfolding startsWith_def
  by (metis append_eq_conv_conj append_take_drop_id)

lemma includes_str_iff: "includes_str t k \<longleftrightarrow> occursAsSubstring t k"
proof (induction t)
  case Nil
  then show ?case by (auto simp: occursAsSubstring_def)
next
  case (Cons c cs)
  have "occursAsSubstring (c # cs) k \<longleftrightarrow> startsWith (c # cs) k \<or> occursAsSubstring cs k"
  proof
    assume "occursAsSubstring (c # cs) k"
    then obtain pre post where p: "c # cs = pre @ k @ post" by (auto simp: occursAsSubstring_def)
    show "startsWith (c # cs) k \<or> occursAsSubstring cs k"
    proof (cases pre)
      case Nil
      with p show ?thesis by (auto simp: startsWith_iff)
    next
      case (Cons a pre')
      with p have "cs = pre' @ k @ post" by simp
      then show ?thesis by (auto simp: occursAsSubstring_def)
    qed
  next
    assume "startsWith (c # cs) k \<or> occursAsSubstring cs k"
    then show "occursAsSubstring (c # cs) k"
    proof
      assume "startsWith (c # cs) k"
      then obtain post where "c # cs = [] @ k @ post" by (auto simp: startsWith_iff)
      then show ?thesis unfolding occursAsSubstring_def by blast
    next
      assume "occursAsSubstring cs k"
      then obtain pre post where "cs = pre @ k @ post" by (auto simp: occursAsSubstring_def)
      then have "c # cs = (c # pre) @ k @ post" by simp
      then show ?thesis unfolding occursAsSubstring_def by blast
    qed
  qed
  with Cons show ?case by simp
qed

lemma matchLiteral_iff:
  "matchLiteral kw before rest \<longleftrightarrow>
     (\<exists>mid post. rest = mid @ post \<and> map canonicalize mid = map canonicalize kw \<and>
        wordBoundary (lastOr before mid) (headOpt post))"
proof (induction kw before rest rule: matchLiteral.induct)
  case (1 before rest)
  show ?case by (auto simp: lastOr_def)
next
  case (2 k ks before)
  show ?case by auto
next
  case (3 k ks before c cs)
  show ?case
  proof
    assume "matchLiteral (k # ks) before (c # cs)"
    with 3 obtain mid post where eq: "canonicalize k = canonicalize c" and
      m: "cs = mid @ post" "map canonicalize mid = map canonicalize ks"
         "wordBoundary (lastOr (Some c) mid) (headOpt post)"
      by auto
    have "lastOr before (c # mid) = lastOr (Some c) mid" by (simp add: lastOr_def)
    with eq m have "c # cs = (c # mid) @ post \<and> map canonicalize (c # mid) = map canonicalize (k # ks) \<and>
        wordBoundary (lastOr before (c # mid)) (headOpt post)" by simp
    then show "\<exists>mid post. c # cs = mid @ post \<and> map canonicalize mid = map canonicalize (k # ks) \<and>
        wordBoundary (lastOr before mid) (headOpt post)" by blast
  next
    assume "\<exists>mid post. c # cs = mid @ post \<and> map canonicalize mid = map canonicalize (k # ks) \<and>
        wordBoundary (lastOr before mid) (headOpt post)"
    then obtain mid post where m: "c # cs = mid @ post" "map canonicalize mid = map canonicalize (k # ks)"
        "wordBoundary (lastOr before mid) (headOpt post)" by blast
    from m(2) obtain c' mid' where mid: "mid = c' # mid'" by (cases mid) auto
    with m have "c' = c" "cs = mid' @ post" "canonicalize k = canonicalize c"
      "map canonicalize mid' = map canonicalize ks" by auto
    moreover have "lastOr before mid = lastOr (Some c) mid'" by (simp add: mid \<open>c' = c\<close> lastOr_def)
    ultimately show "matchLiteral (k # ks) before (c # cs)"
      using 3 m(3) by auto
  qed
qed

lemma lastOr_Nil: "lastOr before [] = before"
  by (simp add: lastOr_def)

lemma lastOr_Cons: "lastOr before (c # s) = lastOr (Some c) s"
  by (simp add: lastOr_def)

lemma occursFrom_Nil: "occursFrom before [] kw \<longleftrightarrow> wordBoundary before None \<and> matchLiteral kw before []"
  by (auto simp: occursFrom_def matchLiteral_iff lastOr_def headOpt_def)

lemma occursFrom_here:
  assumes "wordBoundary before (Some c)" "matchLiteral kw before (c # cs)"
  shows "occursFrom before (c # cs) kw"
proof -
  from assms(2) obtain mid post where m: "c # cs = mid @ post" "map canonicalize mid = map canonicalize kw"
      "wordBoundary (lastOr before mid) (headOpt post)"
    unfolding matchLiteral_iff by blast
  from m(1) have h: "headOpt (mid @ post) = Some c"
    by (metis headOpt_def list.simps(5))
  have "c # cs = [] @ mid @ post \<and> map canonicalize mid = map canonicalize kw \<and>
        wordBoundary (lastOr before []) (headOpt (mid @ post)) \<and>
        wordBoundary (lastOr before ([] @ mid)) (headOpt post)"
    using m assms(1) h by (simp add: lastOr_def)
  then show ?thesis unfolding occursFrom_def by (intro exI)
qed

lemma occursFrom_later:
  assumes "occursFrom (Some c) cs kw"
  shows "occursFrom before (c # cs) kw"
proof -
  from assms obtain pre mid post where r: "cs = pre @ mid @ post" "map canonicalize mid = map canonicalize kw"
        "wordBoundary (lastOr (Some c) pre) (headOpt (mid @ post))"
        "wordBoundary (lastOr (Some c) (pre @ mid)) (headOpt post)"
    unfolding occursFrom_def by blast
  have "c # cs = (c # pre) @ mid @ post \<and> map canonicalize mid = map canonicalize kw \<and>
        wordBoundary (lastOr before (c # pre)) (headOpt (mid @ post)) \<and>
        wordBoundary (lastOr before ((c # pre) @ mid)) (headOpt post)"
    using r by (simp add: lastOr_Nil lastOr_Cons)
  then show ?thesis unfolding occursFrom_def by (intro exI)
qed

lemma occursFrom_Cons_dest:
  assumes "occursFrom before (c # cs) kw"
  shows "(wordBoundary before (Some c) \<and> matchLiteral kw before (c # cs)) \<or> occursFrom (Some c) cs kw"
proof -
  from assms obtain pre mid post where r: "c # cs = pre @ mid @ post" "map canonicalize mid = map canonicalize kw"
        "wordBoundary (lastOr before pre) (headOpt (mid @ post))"
        "wordBoundary (lastOr before (pre @ mid)) (headOpt post)"
    unfolding occursFrom_def by blast
  show ?thesis
  proof (cases pre)
    case Nil
    with r have "c # cs = mid @ post" "headOpt (mid @ post) = Some c"
      by (simp_all add: headOpt_def split: list.splits)
    with r Nil have "wordBoundary before (Some c)" by (simp add: lastOr_Nil lastOr_Cons)
    moreover have "matchLiteral kw before (c # cs)"
      unfolding matchLiteral_iff using r Nil by auto
    ultimately show ?thesis by simp
  next
    case (Cons a pre')
    with r have "cs = pre' @ mid @ post \<and> map canonicalize mid = map canonicalize kw \<and>
        wordBoundary (lastOr (Some c) pre') (headOpt (mid @ post)) \<and>
        wordBoundary (lastOr (Some c) (pre' @ mid)) (headOpt post)"
      by (simp add: lastOr_Nil lastOr_Cons)
    then have "occursFrom (Some c) cs kw" unfolding occursFrom_def by (intro exI)
    then show ?thesis by simp
  qed
qed

lemma regexTest_iff: "regexTest kw before t \<longleftrightarrow> occursFrom before t kw"
proof (induction t arbitrary: before)
  case Nil
  show ?case by (simp add: occursFrom_Nil)
next
  case (Cons c cs)
  show ?case
    using Cons.IH [of "Some c"] occursFrom_here [of before c kw cs] occursFrom_later [of c cs kw before]
      occursFrom_Cons_dest [of before c cs kw]
    by auto
qed

lemma matchKeyword_rce: "\<not> matchKeyword ''resource allocation'' ''rce''"
  by code_simp

lemma matchKeyword_zero_day: "matchKeyword ''a zero-day exploit'' ''zero-day''"
  by code_simp

text \<open>
  C4. A keyword that contains a hyphen or a colon matches a text exactly when the
  lowercased keyword occurs in it as a plain substring; any other keyword matches exactly
  when it occurs at whole-word boundaries, compared without regard to case. The keyword
  \<open>rce\<close> does not match \<open>resource allocation\<close>, and \<open>zero-day\<close> matches
  \<open>a zero-day exploit\<close>.
\<close>

theorem matchKeyword_semantics:
  "matchKeyword t keyword =
     (if CHR ''-'' \<in> set keyword \<or> CHR '':'' \<in> set keyword
      then occursAsSubstring t (toLowerCase keyword)
      else occursAtWordBoundaries t keyword) \<and>
   \<not> matchKeyword ''resource allocation'' ''rce'' \<and>
   matchKeyword ''a zero-day exploit'' ''zero-day''"
proof -
  have "matchKeyword t keyword =
     (if CHR ''-'' \<in> set keyword \<or> CHR '':'' \<in> set keyword
      then occursAsSubstring t (toLowerCase keyword)
      else occursAtWordBoundaries t keyword)"
    by (simp add: matchKeyword_def Let_def toLowerCase_hyphen_colon includes_str_iff regexTest_iff
        occursAtWordBoundaries_def occursFrom_def map_canonicalize_toLowerCase)
  with matchKeyword_rce matchKeyword_zero_day show ?thesis by blast
qed

subsection \<open>scoreItem\<close>

lemma itemText_cveItem: "itemText cveItem = ''cve-1 note ''"
  by code_simp

lemma itemText_plainItem: "itemText plainItem = ''v2 ''"
  by code_simp

lemma matchKeyword_cve: "matchKeyword ''cve-1 note '' ''cve-''"
  by code_simp

lemma matchKeyword_note: "matchKeyword ''cve-1 note '' ''note''"
  by code_simp

lemma findMatches_plain:
  "findMatches ''v2 '' = \<lparr>critical = [], high = [], medium = [], low = []\<rparr>"
  by code_simp

lemma majorVersionRegex_v2: "majorVersionRegex ''v2.0.0''"
  by code_simp

lemma majorVersionRegex_Nil: "\<not> majorVersionRegex []"
  by (simp add: majorVersionRegex_def)

lemma tier_filter: "filter (matchKeyword (itemText it)) tier \<noteq> [] \<longleftrightarrow> tierMatches it tier"
  by (auto simp: tierMatches_def filter_empty_conv)

lemma baseScore_cases:
  "baseScore it src =
     (if tierMatches it CRITICAL_KEYWORDS then (Critical, filter (matchKeyword (itemText it)) CRITICAL_KEYWORDS)
      else if tierMatches it HIGH_KEYWORDS then (High, filter (matchKeyword (itemText it)) HIGH_KEYWORDS)
      else if tierMatches it MEDIUM_KEYWORDS then (Medium, filter (matchKeyword (itemText it)) MEDIUM_KEYWORDS)
      else if tierMatches it LOW_KEYWORDS then (Low, filter (matchKeyword (itemText it)) LOW_KEYWORDS)
      else ((case severityHint src of None \<Rightarrow> Low | Some h \<Rightarrow> h), [''default from source'']))"
  by (simp add: baseScore_def baseSeverity_def findMatches_def tier_filter [symmetric])

lemma severity_scoreItem:
  "severity (scoreItem it src) = fst (prereleaseAdjust it (versionAdjust it (baseScore it src)))"
  by (simp add: scoreItem_def Let_def)

text \<open>
  C3. The base severity follows the tiers in strict order: critical when a critical
  phrase matches the lowercased title and description, else high when a high phrase
  matches, else medium, else low; when no phrase of any tier matches, it is the source's
  severityHint (low when the hint is unset) and the reason is \<open>default from source\<close>.
  For an item without version and pre-release flag the base severity is the severity
  that scoreItem returns.
\<close>

theorem scoreItem_tier_precedence:
  "(tierMatches it CRITICAL_KEYWORDS \<longrightarrow> fst (baseScore it src) = Critical) \<and>
   (\<not> tierMatches it CRITICAL_KEYWORDS \<and> tierMatches it HIGH_KEYWORDS \<longrightarrow> fst (baseScore it src) = High) \<and>
   (\<not> tierMatches it CRITICAL_KEYWORDS \<and> \<not> tierMatches it HIGH_KEYWORDS \<and> tierMatches it MEDIUM_KEYWORDS
      \<longrightarrow> fst (baseScore it src) = Medium) \<and>
   (\<not> tierMatches it CRITICAL_KEYWORDS \<and> \<not> tierMatches it HIGH_KEYWORDS \<and>
    \<not> tierMatches it MEDIUM_KEYWORDS \<and> tierMatches it LOW_KEYWORDS \<longrightarrow> fst (baseScore it src) = Low) \<and>
   (\<not> tierMatches it CRITICAL_KEYWORDS \<and> \<not> tierMatches it HIGH_KEYWORDS \<and>
    \<not> tierMatches it MEDIUM_KEYWORDS \<and> \<not> tierMatches it LOW_KEYWORDS \<longrightarrow>
      baseScore it src = ((case severityHint src of None \<Rightarrow> Low | Some h \<Rightarrow> h), [''default from source''])) \<and>
   (version it = None \<and> \<not> prerelease it \<longrightarrow> severity (scoreItem it src) = fst (baseScore it src))"
  by (simp add: baseScore_cases severity_scoreItem versionAdjust_def prereleaseAdjust_def)


lemma tierMatches_cve: "tierMatches cveItem CRITICAL_KEYWORDS" "tierMatches cveItem LOW_KEYWORDS"
proof -
  have "''cve-'' \<in> set CRITICAL_KEYWORDS" by (simp add: CRITICAL_KEYWORDS_def)
  with matchKeyword_cve show "tierMatches cveItem CRITICAL_KEYWORDS"
    unfolding tierMatches_def itemText_cveItem by blast
  have "''note'' \<in> set LOW_KEYWORDS" by (simp add: LOW_KEYWORDS_def)
  with matchKeyword_note show "tierMatches cveItem LOW_KEYWORDS"
    unfolding tierMatches_def itemText_cveItem by blast
qed

lemma tierMatches_plain:
  "\<not> tierMatches plainItem CRITICAL_KEYWORDS" "\<not> tierMatches plainItem HIGH_KEYWORDS"
  "\<not> tierMatches plainItem MEDIUM_KEYWORDS" "\<not> tierMatches plainItem LOW_KEYWORDS"
  using findMatches_plain
  by (simp_all add: tier_filter [symmetric] itemText_plainItem findMatches_def del: filter.simps)

theorem scoreItem_tier_precedence_witness:
  "tierMatches cveItem CRITICAL_KEYWORDS \<and> tierMatches cveItem LOW_KEYWORDS \<and>
   fst (baseScore cveItem (mkSource None)) = Critical \<and>
   \<not> tierMatches plainItem CRITICAL_KEYWORDS \<and> \<not> tierMatches plainItem HIGH_KEYWORDS \<and>
   \<not> tierMatches plainItem MEDIUM_KEYWORDS \<and> \<not> tierMatches plainItem LOW_KEYWORDS \<and>
   baseScore plainItem (mkSource (Some High)) = (High, [''default from source'']) \<and>
   baseScore plainItem (mkSource None) = (Low, [''default from source''])"
  using scoreItem_tier_precedence [of cveItem "mkSource None"]
    scoreItem_tier_precedence [of plainItem "mkSource (Some High)"]
    scoreItem_tier_precedence [of plainItem "mkSource None"]
    tierMatches_cve tierMatches_plain
  by (simp add: mkSource_def)

lemma versionAdjust_major:
  assumes "version it = Some v" "majorVersionRegex v"
  shows "versionAdjust it (s, rs) =
           (if s = Low then (Medium, rs @ [''major version bump''])
            else if s = Medium then (High, rs @ [''major version bump'']) else (s, rs))"
proof -
  from assms(2) have "v \<noteq> []" using majorVersionRegex_Nil by auto
  with assms show ?thesis by (simp add: versionAdjust_def)
qed

lemma prereleaseAdjust_eq:
  "prereleaseAdjust it (s, rs) =
     (if prerelease it \<and> s = High then (Medium, rs @ [''pre-release (reduced severity)''])
      else if prerelease it \<and> s = Critical then (High, rs @ [''pre-release (reduced severity)''])
      else (s, rs))"
  by (simp add: prereleaseAdjust_def)

lemma fst_versionAdjust_Critical: "fst sr = Critical \<Longrightarrow> fst (versionAdjust it sr) = Critical"
  by (simp add: versionAdjust_def split: option.splits)

text \<open>
  C5. Each adjustment moves the severity by one tier. When the version matches the
  major-release pattern, low becomes medium and medium becomes high, and critical and high
  stay as they are; then, when the item is a pre-release, critical becomes high and high
  becomes medium, and medium and low stay. So an item without keyword match, with hint
  low and version \<open>v2.0.0\<close> scores medium, and an item that matches a critical phrase and
  is a pre-release scores high.
\<close>

theorem scoreItem_adjustments:
  "(version it = Some v \<and> majorVersionRegex v \<longrightarrow>
      fst (versionAdjust it (Low, rs)) = Medium \<and> fst (versionAdjust it (Medium, rs)) = High \<and>
      fst (versionAdjust it (High, rs)) = High \<and> fst (versionAdjust it (Critical, rs)) = Critical) \<and>
   (prerelease it \<longrightarrow>
      fst (prereleaseAdjust it (Critical, rs)) = High \<and> fst (prereleaseAdjust it (High, rs)) = Medium \<and>
      fst (prereleaseAdjust it (Medium, rs)) = Medium \<and> fst (prereleaseAdjust it (Low, rs)) = Low) \<and>
   severity (scoreItem it src) = fst (prereleaseAdjust it (versionAdjust it (baseScore it src))) \<and>
   (\<not> tierMatches it CRITICAL_KEYWORDS \<and> \<not> tierMatches it HIGH_KEYWORDS \<and>
    \<not> tierMatches it MEDIUM_KEYWORDS \<and> \<not> tierMatches it LOW_KEYWORDS \<and>
    severityHint src = Some Low \<and> version it = Some ''v2.0.0'' \<longrightarrow>
      severity (scoreItem it src) = Medium) \<and>
   (tierMatches it CRITICAL_KEYWORDS \<and> prerelease it \<longrightarrow> severity (scoreItem it src) = High)"
proof (intro conjI impI)
  assume a: "\<not> tierMatches it CRITICAL_KEYWORDS \<and> \<not> tierMatches it HIGH_KEYWORDS \<and>
    \<not> tierMatches it MEDIUM_KEYWORDS \<and> \<not> tierMatches it LOW_KEYWORDS \<and>
    severityHint src = Some Low \<and> version it = Some ''v2.0.0''"
  then have "baseScore it src = (Low, [''default from source''])"
    by (simp add: baseScore_cases)
  with a show "severity (scoreItem it src) = Medium"
    by (simp add: severity_scoreItem versionAdjust_major [OF _ majorVersionRegex_v2] prereleaseAdjust_eq)
next
  assume a: "tierMatches it CRITICAL_KEYWORDS \<and> prerelease it"
  then have "fst (baseScore it src) = Critical" by (simp add: baseScore_cases)
  then have "fst (versionAdjust it (baseScore it src)) = Critical"
    by (rule fst_versionAdjust_Critical)
  with a show "severity (scoreItem it src) = High"
    by (simp add: severity_scoreItem prereleaseAdjust_def)
qed (simp_all add: versionAdjust_major prereleaseAdjust_eq severity_scoreItem)

lemma sample_fields:
  "version plainItem = Some ''v2.0.0''" "prerelease cveItem" "severityHint (mkSource h) = h"
  by (simp_all add: plainItem_def cveItem_def mkItem_def mkSource_def)

theorem scoreItem_adjustments_witness:
  "version plainItem = Some ''v2.0.0'' \<and> majorVersionRegex ''v2.0.0'' \<and>
   fst (versionAdjust plainItem (Low, [])) = Medium \<and> fst (versionAdjust plainItem (Medium, [])) = High \<and>
   prerelease cveItem \<and> fst (prereleaseAdjust cveItem (Critical, [])) = High \<and>
   severity (scoreItem plainItem (mkSource (Some Low))) = Medium \<and>
   severity (scoreItem cveItem (mkSource None)) = High"
proof -
  note plain = scoreItem_adjustments [of plainItem "''v2.0.0''" "[]" "mkSource (Some Low)"]
  note cve = scoreItem_adjustments [of cveItem "''v2.0.0''" "[]" "mkSource None"]
  have p: "severity (scoreItem plainItem (mkSource (Some Low))) = Medium"
    using plain tierMatches_plain sample_fields by blast
  have c: "severity (scoreItem cveItem (mkSource None)) = High"
    using cve tierMatches_cve sample_fields by blast
  have v: "fst (versionAdjust plainItem (Low, [])) = Medium \<and> fst (versionAdjust plainItem (Medium, [])) = High"
    using plain majorVersionRegex_v2 sample_fields by blast
  have q: "fst (prereleaseAdjust cveItem (Critical, [])) = High"
    using cve sample_fields by blast
  show ?thesis
    using p c v q sample_fields majorVersionRegex_v2 by simp
qed

lemma unique_hd: "x \<notin> set seen \<Longrightarrow> unique seen (x # xs) = x # unique (seen @ [x]) xs"
  by simp

lemma unique_nonempty: "xs \<noteq> [] \<Longrightarrow> unique [] xs \<noteq> [] \<and> hd (unique [] xs) = hd xs"
  by (cases xs) simp_all

lemma snd_versionAdjust: "\<exists>ys. snd (versionAdjust it sr) = snd sr @ ys"
  by (simp add: versionAdjust_def split: option.splits)

lemma snd_prereleaseAdjust: "\<exists>ys. snd (prereleaseAdjust it sr) = snd sr @ ys"
  by (simp add: prereleaseAdjust_def)

lemma adjusted_reasons: "\<exists>ys. snd (prereleaseAdjust it (versionAdjust it sr)) = snd sr @ ys"
proof -
  obtain ys where "snd (versionAdjust it sr) = snd sr @ ys" using snd_versionAdjust by blast
  moreover obtain zs where "snd (prereleaseAdjust it (versionAdjust it sr)) = snd (versionAdjust it sr) @ zs"
    using snd_prereleaseAdjust by blast
  ultimately show ?thesis by simp
qed

lemma baseScore_reasons:
  "snd (baseScore it src) \<noteq> [] \<and>
   (if tierMatches it CRITICAL_KEYWORDS \<or> tierMatches it HIGH_KEYWORDS \<or> tierMatches it MEDIUM_KEYWORDS \<or>
       tierMatches it LOW_KEYWORDS
    then hd (snd (baseScore it src)) \<in> set (CRITICAL_KEYWORDS @ HIGH_KEYWORDS @ MEDIUM_KEYWORDS @ LOW_KEYWORDS) \<and>
         matchKeyword (itemText it) (hd (snd (baseScore it src)))
    else hd (snd (baseScore it src)) = ''default from source'')"
proof -
  have f: "\<And>tier. tierMatches it tier \<Longrightarrow> filter (matchKeyword (itemText it)) tier \<noteq> [] \<and>
      hd (filter (matchKeyword (itemText it)) tier) \<in> set tier \<and>
      matchKeyword (itemText it) (hd (filter (matchKeyword (itemText it)) tier))"
  proof -
    fix tier assume "tierMatches it tier"
    then have ne: "filter (matchKeyword (itemText it)) tier \<noteq> []" by (simp add: tier_filter)
    then have "hd (filter (matchKeyword (itemText it)) tier) \<in> set (filter (matchKeyword (itemText it)) tier)"
      by (rule hd_in_set)
    with ne show "filter (matchKeyword (itemText it)) tier \<noteq> [] \<and>
      hd (filter (matchKeyword (itemText it)) tier) \<in> set tier \<and>
      matchKeyword (itemText it) (hd (filter (matchKeyword (itemText it)) tier))" by simp
  qed
  show ?thesis
    using f [of CRITICAL_KEYWORDS] f [of HIGH_KEYWORDS] f [of MEDIUM_KEYWORDS] f [of LOW_KEYWORDS]
    by (simp add: baseScore_cases)
qed

text \<open>
  C9. The list of reasons that scoreItem returns has between one and three entries. Its
  first entry is \<open>default from source\<close> when no phrase of any tier matches, and a matched
  phrase otherwise.
\<close>

theorem scoreItem_reasons_bounds:
  "1 \<le> length (reasons (scoreItem it src)) \<and> length (reasons (scoreItem it src)) \<le> 3 \<and>
   (if tierMatches it CRITICAL_KEYWORDS \<or> tierMatches it HIGH_KEYWORDS \<or> tierMatches it MEDIUM_KEYWORDS \<or>
       tierMatches it LOW_KEYWORDS
    then hd (reasons (scoreItem it src)) \<in> set (CRITICAL_KEYWORDS @ HIGH_KEYWORDS @ MEDIUM_KEYWORDS @ LOW_KEYWORDS) \<and>
         matchKeyword (itemText it) (hd (reasons (scoreItem it src)))
    else hd (reasons (scoreItem it src)) = ''default from source'')"
proof -
  obtain ys where ys: "snd (prereleaseAdjust it (versionAdjust it (baseScore it src))) = snd (baseScore it src) @ ys"
    using adjusted_reasons by blast
  have ne: "snd (baseScore it src) \<noteq> []" using baseScore_reasons by blast
  let ?rs = "snd (baseScore it src) @ ys"
  have rs: "reasons (scoreItem it src) = take 3 (unique [] ?rs)"
    by (simp add: scoreItem_def Let_def ys)
  from ne have "?rs \<noteq> []" by simp
  then have u: "unique [] ?rs \<noteq> []" "hd (unique [] ?rs) = hd ?rs" using unique_nonempty by blast+
  from u(1) have len: "1 \<le> length (take 3 (unique [] ?rs))"
    by (cases "unique [] ?rs") simp_all
  from u ne have h: "hd (take 3 (unique [] ?rs)) = hd (snd (baseScore it src))"
    by (cases "unique [] ?rs") simp_all
  show ?thesis
    unfolding rs h using len baseScore_reasons [of it src] by (simp del: set_append)
qed

theorem scoreItem_reasons_bounds_witness:
  "tierMatches cveItem CRITICAL_KEYWORDS \<and>
   1 \<le> length (reasons (scoreItem cveItem (mkSource None))) \<and>
   length (reasons (scoreItem cveItem (mkSource None))) \<le> 3 \<and>
   matchKeyword (itemText cveItem) (hd (reasons (scoreItem cveItem (mkSource None)))) \<and>
   \<not> tierMatches plainItem CRITICAL_KEYWORDS \<and> \<not> tierMatches plainItem HIGH_KEYWORDS \<and>
   \<not> tierMatches plainItem MEDIUM_KEYWORDS \<and> \<not> tierMatches plainItem LOW_KEYWORDS \<and>
   hd (reasons (scoreItem plainItem (mkSource None))) = ''default from source''"
  using scoreItem_reasons_bounds [of cveItem "mkSource None"]
    scoreItem_reasons_bounds [of plainItem "mkSource None"]
    tierMatches_cve tierMatches_plain
  by simp

section \<open>Properties of retrieval\<close>

subsection \<open>fetchUrl\<close>

lemma orDefault_Some_Suc: "orDefault (Some (Suc n)) d = Suc n"
  by (simp add: orDefault_def)

lemma readBody_eq:
  "sz \<le> maxSz \<Longrightarrow> readBody bufferToString maxSz u data sz cs =
     (if sz + length (concat cs) > maxSz then Inl (ResponseTooLarge maxSz u)
      else Inr (data @ concat (map bufferToString cs)))"
  by (induction cs arbitrary: data sz) auto

lemma fetchUrl_terminal:
  assumes "net u = Responds res" "\<not> isRedirect (statusCode res)"
  shows "fetchUrl net resolveUrl bufferToString u options =
           (if statusCode res \<noteq> 200 then Inl (HttpError (statusCode res) u)
            else if length (concat (chunks res)) > orDefault (maxSize options) (5 * 1024 * 1024)
            then Inl (ResponseTooLarge (orDefault (maxSize options) (5 * 1024 * 1024)) u)
            else Inr (concat (map bufferToString (chunks res))))"
  using assms by (simp add: readBody_eq)

lemma fetchUrl_redirect:
  assumes "net u = Responds res" "isRedirect (statusCode res)" "location res = Some redirectUrl"
    "redirectUrl \<noteq> []" "newUrl resolveUrl redirectUrl u = Some v"
  shows "fetchUrl net resolveUrl bufferToString u options =
           (if orDefault (redirectCount options) 0 \<ge> orDefault (maxRedirects options) 5
            then Inl (TooManyRedirects (orDefault (maxRedirects options) 5) u)
            else fetchUrl net resolveUrl bufferToString v
                   (options\<lparr>redirectCount := Some (orDefault (redirectCount options) 0 + 1)\<rparr>))"
  using assms by (subst fetchUrl.simps) simp

lemma chain_within_budget:
  "redirectChain net resolveUrl u vs \<Longrightarrow>
   orDefault (redirectCount options) 0 + length vs \<le> orDefault (maxRedirects options) 5 \<Longrightarrow>
   net (last (u # vs)) = Responds res \<Longrightarrow> \<not> isRedirect (statusCode res) \<Longrightarrow>
   fetchUrl net resolveUrl bufferToString u options =
     (if statusCode res \<noteq> 200 then Inl (HttpError (statusCode res) (last (u # vs)))
      else if length (concat (chunks res)) > orDefault (maxSize options) (5 * 1024 * 1024)
      then Inl (ResponseTooLarge (orDefault (maxSize options) (5 * 1024 * 1024)) (last (u # vs)))
      else Inr (concat (map bufferToString (chunks res))))"
proof (induction vs arbitrary: u options)
  case Nil
  then show ?case using fetchUrl_terminal [of net u res resolveUrl bufferToString options] by simp
next
  case (Cons v vs)
  from Cons.prems(1) obtain r loc where r: "net u = Responds r" "isRedirect (statusCode r)"
      "location r = Some loc" "loc \<noteq> []" "newUrl resolveUrl loc u = Some v"
      and rest: "redirectChain net resolveUrl v vs"
    by (auto split: reply.splits option.splits)
  let ?o = "options\<lparr>redirectCount := Some (orDefault (redirectCount options) 0 + 1)\<rparr>"
  from Cons.prems(2) have lt: "\<not> orDefault (redirectCount options) 0 \<ge> orDefault (maxRedirects options) 5"
    by simp
  have step: "fetchUrl net resolveUrl bufferToString u options = fetchUrl net resolveUrl bufferToString v ?o"
    using fetchUrl_redirect [of net u r loc resolveUrl v bufferToString options] r lt by simp
  have budget: "orDefault (redirectCount ?o) 0 + length vs \<le> orDefault (maxRedirects ?o) 5"
    using Cons.prems(2) by (simp add: orDefault_Some_Suc)
  have l: "net (last (v # vs)) = Responds res" using Cons.prems(3) by simp
  from Cons.IH [OF rest budget l Cons.prems(4)] step show ?case by simp
qed

lemma chain_over_budget:
  "redirectChain net resolveUrl u vs \<Longrightarrow>
   orDefault (maxRedirects options) 5 - orDefault (redirectCount options) 0 < length vs \<Longrightarrow>
   fetchUrl net resolveUrl bufferToString u options =
     Inl (TooManyRedirects (orDefault (maxRedirects options) 5)
            ((u # vs) ! (orDefault (maxRedirects options) 5 - orDefault (redirectCount options) 0)))"
proof (induction vs arbitrary: u options)
  case Nil
  then show ?case by simp
next
  case (Cons v vs)
  from Cons.prems(1) obtain r loc where r: "net u = Responds r" "isRedirect (statusCode r)"
      "location r = Some loc" "loc \<noteq> []" "newUrl resolveUrl loc u = Some v"
      and rest: "redirectChain net resolveUrl v vs"
    by (auto split: reply.splits option.splits)
  let ?o = "options\<lparr>redirectCount := Some (orDefault (redirectCount options) 0 + 1)\<rparr>"
  let ?m = "orDefault (maxRedirects options) 5" and ?c = "orDefault (redirectCount options) 0"
  show ?case
  proof (cases "?c \<ge> ?m")
    case True
    then show ?thesis using fetchUrl_redirect [of net u r loc resolveUrl v bufferToString options] r by simp
  next
    case False
    then have step: "fetchUrl net resolveUrl bufferToString u options = fetchUrl net resolveUrl bufferToString v ?o"
      using fetchUrl_redirect [of net u r loc resolveUrl v bufferToString options] r by simp
    have c': "orDefault (redirectCount ?o) 0 = Suc ?c" by (simp add: orDefault_Some_Suc)
    have over: "orDefault (maxRedirects ?o) 5 - orDefault (redirectCount ?o) 0 < length vs"
      using Cons.prems(2) False by (simp add: orDefault_Some_Suc)
    have idx: "(u # v # vs) ! (?m - ?c) = (v # vs) ! (?m - Suc ?c)"
    proof -
      from False obtain k where k: "?m - ?c = Suc k" by (cases "?m - ?c") auto
      then have "?m - Suc ?c = k" by arith
      with k show ?thesis by simp
    qed
    from Cons.IH [OF rest over] step show ?thesis by (simp add: orDefault_Some_Suc idx)
  qed
qed


lemma chainNet_chain:
  "redirectChain chainNet keepUrl ''http://a/0''
     [''http://a/1'', ''http://a/2'', ''http://a/3'', ''http://a/4'', ''http://a/5'', ''http://a/6'']"
  "redirectChain chainNet keepUrl ''http://a/1''
     [''http://a/2'', ''http://a/3'', ''http://a/4'', ''http://a/5'', ''http://a/6'']"
  by (simp_all add: chainNet_def redirectTo_def isRedirect_def newUrl_def startsWith_def)

lemma chainNet_terminal:
  "chainNet ''http://a/6'' = Responds releaseResponse"
  "chainNet ''http://a/accents'' = Responds accentsResponse"
  "chainNet ''http://a/created'' = Responds createdResponse"
  "chainNet ''http://a/missing'' = Responds missingResponse"
  by (simp_all add: chainNet_def)

lemma sample_responses:
  "statusCode releaseResponse = 200" "length (concat (chunks releaseResponse)) = 7"
  "statusCode accentsResponse = 200" "length (concat (chunks accentsResponse)) = 6"
  "statusCode createdResponse = 201" "statusCode missingResponse = 404"
  by (simp_all add: releaseResponse_def accentsResponse_def createdResponse_def missingResponse_def)

lemma releaseResponse_text: "concat (map asciiText (chunks releaseResponse)) = ''release''"
  by code_simp

lemma sample_options:
  "orDefault (maxRedirects fiveRedirects) 5 = 5" "orDefault (redirectCount fiveRedirects) 0 = 0"
  "orDefault (maxSize fiveRedirects) (5 * 1024 * 1024) = 5 * 1024 * 1024"
  "orDefault (maxRedirects capFive) 5 = 5" "orDefault (redirectCount capFive) 0 = 0"
  "orDefault (maxSize capFive) (5 * 1024 * 1024) = 5"
  by (simp_all add: fiveRedirects_def capFive_def orDefault_def)



text \<open>
  C7. With maxRedirects = 5 and a fresh redirect count, a chain of 6 redirects fails with
  the too-many-redirects error (at the sixth redirecting URL), and a chain of exactly 5
  redirects that ends in a 200 response whose byte count is within the size cap succeeds
  with the text of its body.
\<close>

theorem fetchUrl_redirect_budget:
  assumes "orDefault (maxRedirects options) 5 = 5" and "orDefault (redirectCount options) 0 = 0"
    and "redirectChain net resolveUrl u vs"
  shows "(length vs = 6 \<longrightarrow>
            fetchUrl net resolveUrl bufferToString u options = Inl (TooManyRedirects 5 ((u # vs) ! 5))) \<and>
         (length vs = 5 \<and> net (last (u # vs)) = Responds res \<and> statusCode res = 200 \<and>
          length (concat (chunks res)) \<le> orDefault (maxSize options) (5 * 1024 * 1024) \<longrightarrow>
            fetchUrl net resolveUrl bufferToString u options
              = Inr (concat (map bufferToString (chunks res))))"
proof (intro conjI impI)
  assume "length vs = 6"
  with assms chain_over_budget [of net resolveUrl u vs options bufferToString]
  show "fetchUrl net resolveUrl bufferToString u options = Inl (TooManyRedirects 5 ((u # vs) ! 5))"
    by simp
next
  assume a: "length vs = 5 \<and> net (last (u # vs)) = Responds res \<and> statusCode res = 200 \<and>
          length (concat (chunks res)) \<le> orDefault (maxSize options) (5 * 1024 * 1024)"
  then have "\<not> isRedirect (statusCode res)" by (simp add: isRedirect_def)
  with a assms chain_within_budget [of net resolveUrl u vs options res bufferToString]
  show "fetchUrl net resolveUrl bufferToString u options = Inr (concat (map bufferToString (chunks res)))"
    by simp
qed

theorem fetchUrl_redirect_budget_witness:
  "fetchUrl chainNet keepUrl asciiText ''http://a/0'' fiveRedirects
     = Inl (TooManyRedirects 5 ''http://a/5'') \<and>
   fetchUrl chainNet keepUrl asciiText ''http://a/1'' fiveRedirects = Inr ''release''"
proof -
  have a: "fetchUrl chainNet keepUrl asciiText ''http://a/0'' fiveRedirects
      = Inl (TooManyRedirects 5 ''http://a/5'')"
    using fetchUrl_redirect_budget [OF sample_options(1,2) chainNet_chain(1),
        where bufferToString = asciiText] by simp
  have b: "fetchUrl chainNet keepUrl asciiText ''http://a/1'' fiveRedirects = Inr ''release''"
    using fetchUrl_redirect_budget [OF sample_options(1,2) chainNet_chain(2),
        where bufferToString = asciiText and res = releaseResponse]
      chainNet_terminal(1) sample_responses sample_options(3) releaseResponse_text
    by simp
  from a b show ?thesis by simp
qed

subsection \<open>parseRSS\<close>

lemma parseLoop_eq:
  "count \<le> 20 \<Longrightarrow>
   parseLoop dateOf now xml count items =
     items @ take (20 - count) (map (rssEntry dateOf now) (filter keepsEntry (itemBlocks xml)))"
proof (induction dateOf now xml count items rule: parseLoop.induct)
  case (1 dateOf now xml count items)
  show ?case
  proof (cases "itemRegex xml")
    case None
    then show ?thesis
      by (subst parseLoop.simps, subst itemBlocks.simps) simp
  next
    case (Some m)
    obtain itemXml rest where m: "m = (itemXml, rest)" by (cases m)
    have blocks: "itemBlocks xml = itemXml # itemBlocks rest"
      by (subst itemBlocks.simps) (simp add: Some m)
    show ?thesis
    proof (cases "count < 20")
      case False
      with "1.prems" have "count = 20" by simp
      then show ?thesis by (subst parseLoop.simps) (simp add: Some m)
    next
      case True
      then have k: "20 - count = Suc (20 - Suc count)" by simp
      show ?thesis
      proof (cases "keepsEntry itemXml")
        case kept: True
        then have c: "entryTitle itemXml \<noteq> [] \<and> entryLink itemXml \<noteq> []" by (simp add: keepsEntry_def)
        have "parseLoop dateOf now xml count items =
            parseLoop dateOf now rest (count + 1) (items @ [rssEntry dateOf now itemXml])"
          by (subst parseLoop.simps) (simp add: Some m True c)
        also have "\<dots> = (items @ [rssEntry dateOf now itemXml]) @
            take (20 - Suc count) (map (rssEntry dateOf now) (filter keepsEntry (itemBlocks rest)))"
          using "1.IH"(1) [OF Some m [symmetric] True c] True by simp
        also have "\<dots> = items @ take (20 - count) (map (rssEntry dateOf now) (filter keepsEntry (itemBlocks xml)))"
          unfolding blocks k using kept by simp
        finally show ?thesis .
      next
        case dropped: False
        then have c: "\<not> (entryTitle itemXml \<noteq> [] \<and> entryLink itemXml \<noteq> [])" by (simp add: keepsEntry_def)
        have "parseLoop dateOf now xml count items = parseLoop dateOf now rest count items"
          using c by (subst parseLoop.simps) (auto simp: Some m True)
        also have "\<dots> = items @ take (20 - count) (map (rssEntry dateOf now) (filter keepsEntry (itemBlocks rest)))"
          using "1.IH"(2) [OF Some m [symmetric] True c] "1.prems" by simp
        finally show ?thesis by (simp add: blocks dropped)
      qed
    qed
  qed
qed

lemma parseRSS_short:
  "length xml \<le> 2 * 1024 * 1024 \<Longrightarrow>
   parseRSS dateOf now xml = take 20 (map (rssEntry dateOf now) (filter keepsEntry (itemBlocks xml)))"
  using parseLoop_eq [of 0 dateOf now xml "[]"] by (simp add: parseRSS_def)

text \<open>
  C8, as the code has it. The result of parseRSS is made of the entry blocks that have
  both a title and a link (neither empty after trimming), in order, cut at twenty: an
  entry is dropped exactly when its title or its link is missing, and kept, up to the cap,
  exactly when it has both.
\<close>

theorem parseRSS_keeps_entries_with_title_and_link:
  "parseRSS dateOf now xml =
     take 20 (map (rssEntry dateOf now)
       (filter (\<lambda>itemXml. entryTitle itemXml \<noteq> [] \<and> entryLink itemXml \<noteq> [])
         (itemBlocks (if length xml > 2 * 1024 * 1024 then take (2 * 1024 * 1024) xml else xml))))"
proof -
  have "keepsEntry = (\<lambda>itemXml. entryTitle itemXml \<noteq> [] \<and> entryLink itemXml \<noteq> [])"
    by (simp add: keepsEntry_def fun_eq_iff)
  then show ?thesis
    using parseLoop_eq [of 0 dateOf now _ "[]"] by (simp add: parseRSS_def)
qed

lemma titleOnly_blocks: "itemBlocks ''<item><title>Release 1</title></item>'' = [''<title>Release 1</title>'']"
  by code_simp

lemma titleOnly_title: "entryTitle ''<title>Release 1</title>'' = ''Release 1''"
  by code_simp

lemma titleOnly_link: "entryLink ''<title>Release 1</title>'' = []"
  by code_simp

lemma threeEntries_blocks:
  "itemBlocks threeEntries =
     [''<title>Release 1</title><link>http://a/1</link>'', ''<title>Release 2</title>'',
      ''<link>http://a/3</link>'']"
  by code_simp

lemma threeEntries_keeps:
  "keepsEntry ''<title>Release 1</title><link>http://a/1</link>''"
  "\<not> keepsEntry ''<title>Release 2</title>''"
  "\<not> keepsEntry ''<link>http://a/3</link>''"
  by code_simp+

lemma threeEntries_first:
  "rssEntry noDate 0 ''<title>Release 1</title><link>http://a/1</link>'' =
     \<lparr>rssTitle = ''Release 1'', rssLink = ''http://a/1'', rssDescription = [], pubDate = [],
      date = Some 0\<rparr>"
  by code_simp

lemma threeEntries_length: "length threeEntries \<le> 2 * 1024 * 1024"
  by (simp add: threeEntries_def)

theorem parseRSS_keeps_entries_with_title_and_link_witness:
  "parseRSS noDate 0 threeEntries =
     [\<lparr>rssTitle = ''Release 1'', rssLink = ''http://a/1'', rssDescription = [], pubDate = [],
       date = Some 0\<rparr>]"
proof -
  have "(\<lambda>itemXml. entryTitle itemXml \<noteq> [] \<and> entryLink itemXml \<noteq> []) = keepsEntry"
    by (simp add: keepsEntry_def fun_eq_iff)
  with parseRSS_keeps_entries_with_title_and_link [of noDate 0 threeEntries] threeEntries_length
  have "parseRSS noDate 0 threeEntries =
      take 20 (map (rssEntry noDate 0) (filter keepsEntry (itemBlocks threeEntries)))"
    by simp
  then show ?thesis
    unfolding threeEntries_blocks by (simp add: threeEntries_keeps threeEntries_first)
qed

text \<open>
  C8 as stated asks that an entry with at least one of title and link is kept. The feed
  below has one entry, with a title and no link, and parseRSS returns no entry for it.
\<close>

theorem parseRSS_title_only_counterexample:
  "itemBlocks ''<item><title>Release 1</title></item>'' = [''<title>Release 1</title>''] \<and>
   entryTitle ''<title>Release 1</title>'' = ''Release 1'' \<and>
   entryLink ''<title>Release 1</title>'' = [] \<and>
   parseRSS noDate 0 ''<item><title>Release 1</title></item>'' = []"
proof -
  have "length ''<item><title>Release 1</title></item>'' \<le> 2 * 1024 * 1024" by simp
  from parseRSS_short [OF this, of noDate 0]
  have "parseRSS noDate 0 ''<item><title>Release 1</title></item>'' = []"
    unfolding titleOnly_blocks by (simp add: keepsEntry_def titleOnly_link)
  then show ?thesis
    using titleOnly_blocks titleOnly_title titleOnly_link by simp
qed

end
